theory Spec2Isabelle
  imports Main "HOL-Library.Word" "HOL-Library.Sublist"
begin

text \<open>
  The steps of the create-cloudflare generator in \<open>src/unnamed/part_000\<close>:
  \<open>setupProjectDirectory\<close>, \<open>offerToDeploy\<close>, \<open>chooseAccount\<close>, \<open>runDeploy\<close>,
  \<open>offerGit\<close>, \<open>isGitInstalled\<close>, \<open>isInsideGitRepo\<close> and \<open>initializeGit\<close>. Each step is a
  function of the state it works on; a step that can fail returns the failure as a
  value. What the steps import (the process runner, the prompts, the login, the account
  listing, Node's \<open>path\<close> and \<open>fs\<close>) is a parameter.
\<close>

section \<open>JavaScript strings\<close>

text \<open>
  A JavaScript string is a sequence of UTF-16 code units. The captured output of a
  command may hold any code unit, and the regular expression of \<open>runDeploy\<close> and
  \<open>trim\<close> distinguish code units beyond Latin-1, so a string is a list of 16-bit words.
  \<open>lit\<close> writes an ASCII literal of the source.
\<close>

type_synonym unit16 = "16 word"
type_synonym jsstr = "unit16 list"

definition lit :: "string \<Rightarrow> jsstr" where
  "lit s = map of_char s"

text \<open>ECMAScript LineTerminator: LF, CR, LS, PS. The regular expression's \<open>.\<close> (no
  \<open>s\<close> flag) matches every code unit but these.\<close>

definition lineTerminator :: "unit16 \<Rightarrow> bool" where
  "lineTerminator c = (c = 0x000A \<or> c = 0x000D \<or> c = 0x2028 \<or> c = 0x2029)"

text \<open>ECMAScript WhiteSpace (TAB, VT, FF, SP, NBSP, ZWNBSP and category Zs) together
  with LineTerminator: what \<open>String.prototype.trim\<close> strips.\<close>

definition trimmable :: "unit16 \<Rightarrow> bool" where
  "trimmable c =
     (c = 0x0009 \<or> c = 0x000B \<or> c = 0x000C \<or> c = 0x0020 \<or> c = 0x00A0 \<or> c = 0xFEFF
      \<or> c = 0x1680 \<or> (0x2000 \<le> c \<and> c \<le> 0x200A) \<or> c = 0x202F \<or> c = 0x205F
      \<or> c = 0x3000 \<or> lineTerminator c)"

definition trim :: "jsstr \<Rightarrow> jsstr" where
  "trim s = rev (dropWhile trimmable (rev (dropWhile trimmable s)))"

text \<open>\<open>s.endsWith(x)\<close> and \<open>s.includes(x)\<close>.\<close>

definition endsWith :: "'a list \<Rightarrow> 'a list \<Rightarrow> bool" where
  "endsWith s x = suffix x s"

definition includes_str :: "'a list \<Rightarrow> 'a list \<Rightarrow> bool" where
  "includes_str s x = sublist x s"

text \<open>\<open>s.split(sep)\<close>: the pieces between the successive, non-overlapping occurrences
  of \<open>sep\<close>, found from the left; with the empty separator, the code units one by one.\<close>

function split_str :: "'a list \<Rightarrow> 'a list \<Rightarrow> 'a list list" where
  "split_str sep [] = (if sep = [] then [] else [[]])"
| "split_str sep (c # cs) =
     (if sep = [] then [c] # split_str sep cs
      else if prefix sep (c # cs) then [] # split_str sep (drop (length sep) (c # cs))
      else (case split_str sep cs of [] \<Rightarrow> [[c]] | p # ps \<Rightarrow> (c # p) # ps))"
  by pat_completeness auto
termination
  by (relation "measure (\<lambda>(sep, s). length s)") (auto simp: neq_Nil_conv)

text \<open>\<open>xs.slice(-n)\<close>: the last \<open>n\<close> elements, all of them when there are fewer.\<close>

definition slice_last :: "nat \<Rightarrow> 'a list \<Rightarrow> 'a list" where
  "slice_last n xs = drop (length xs - n) xs"

text \<open>\<open>xs.join(sep)\<close>.\<close>

fun join_str :: "'a list \<Rightarrow> 'a list list \<Rightarrow> 'a list" where
  "join_str sep [] = []"
| "join_str sep [x] = x"
| "join_str sep (x # y # ys) = x @ sep @ join_str sep (y # ys)"

text \<open>\<open>a ?? b\<close>: \<open>b\<close> only when \<open>a\<close> is \<open>null\<close> or \<open>undefined\<close>.\<close>

definition nullish :: "'a option \<Rightarrow> 'a \<Rightarrow> 'a" where
  "nullish a b = (case a of None \<Rightarrow> b | Some v \<Rightarrow> v)"

section \<open>The deployment URL pattern\<close>

text \<open>
  \<open>/https:\/\/.+\.(pages|workers)\.dev/\<close> under \<open>String.prototype.match\<close> (no \<open>g\<close> flag):
  the match at the leftmost position where one exists; there \<open>.+\<close> is greedy, so the
  matcher first lets it take the whole run of code units up to the next line terminator
  and gives back one code unit at a time until the rest of the pattern, \<open>.pages.dev\<close>
  tried before \<open>.workers.dev\<close>, follows.
\<close>

definition matchSuffix :: "jsstr \<Rightarrow> jsstr option" where
  "matchSuffix s =
     (if prefix (lit ''.pages.dev'') s then Some (lit ''.pages.dev'')
      else if prefix (lit ''.workers.dev'') s then Some (lit ''.workers.dev'')
      else None)"

fun backtrack :: "nat \<Rightarrow> jsstr \<Rightarrow> jsstr option" where
  "backtrack 0 rest = None"
| "backtrack (Suc k) rest =
     (case matchSuffix (drop (Suc k) rest) of
        Some sfx \<Rightarrow> Some (take (Suc k) rest @ sfx)
      | None \<Rightarrow> backtrack k rest)"

definition matchHere :: "jsstr \<Rightarrow> jsstr option" where
  "matchHere s =
     (if prefix (lit ''https://'') s then
        (let rest = drop (length (lit ''https://'')) s;
             run = takeWhile (\<lambda>c. \<not> lineTerminator c) rest
         in map_option (\<lambda>m. lit ''https://'' @ m) (backtrack (length run) rest))
      else None)"

fun deployedUrlMatch :: "jsstr \<Rightarrow> jsstr option" where
  "deployedUrlMatch [] = None"
| "deployedUrlMatch (c # cs) =
     (case matchHere (c # cs) of Some m \<Rightarrow> Some m | None \<Rightarrow> deployedUrlMatch cs)"

text \<open>
  What the pattern says, read as a property of the text: somewhere in it stands
  \<open>https://\<close>, at least one code unit, none of them a line terminator, and then
  \<open>.pages.dev\<close> or \<open>.workers.dev\<close>.
\<close>

definition containsDeploymentUrl :: "jsstr \<Rightarrow> bool" where
  "containsDeploymentUrl out =
     (\<exists>before host sfx after.
        out = before @ lit ''https://'' @ host @ sfx @ after \<and> host \<noteq> [] \<and>
        list_all (\<lambda>c. \<not> lineTerminator c) host \<and>
        (sfx = lit ''.pages.dev'' \<or> sfx = lit ''.workers.dev''))"

text \<open>
  The words "an https URL whose host ends in \<open>.pages.dev\<close> or \<open>.workers.dev\<close>", read
  as a URL is read. In a text, the host of a URL is what follows \<open>https://\<close> up to the
  first \<open>/\<close>, \<open>?\<close>, \<open>#\<close> or white space, or up to the end; it ends in a suffix when
  something stands before the suffix. The pattern above asks less: it takes any code
  units but line terminators between \<open>https://\<close> and the suffix.
\<close>

definition hostEnd :: "unit16 \<Rightarrow> bool" where
  "hostEnd c = (c = 0x2F \<or> c = 0x3F \<or> c = 0x23 \<or> trimmable c)"

definition urlHost :: "jsstr \<Rightarrow> jsstr" where
  "urlHost rest = takeWhile (\<lambda>c. \<not> hostEnd c) rest"

definition deploymentHost :: "jsstr \<Rightarrow> bool" where
  "deploymentHost h =
     ((endsWith h (lit ''.pages.dev'') \<and> length (lit ''.pages.dev'') < length h) \<or>
      (endsWith h (lit ''.workers.dev'') \<and> length (lit ''.workers.dev'') < length h))"

fun holdsDeploymentHostUrl :: "jsstr \<Rightarrow> bool" where
  "holdsDeploymentHostUrl [] = False"
| "holdsDeploymentHostUrl (c # cs) =
     ((prefix (lit ''https://'') (c # cs) \<and>
       deploymentHost (urlHost (drop (length (lit ''https://'')) (c # cs))))
      \<or> holdsDeploymentHostUrl cs)"

section \<open>The session context\<close>

text \<open>
  Modelled from the spec: the types \<open>PagesGeneratorArgs\<close> and \<open>PagesGeneratorContext\<close>
  of the module \<open>types\<close>, which the source imports. The records hold the fields of the
  specification's session context, which are the fields the source reads and writes;
  a field that may be undefined is an option.
\<close>

record PagesGeneratorArgs =
  projectName :: jsstr
  deploy :: "bool option"
  git :: "bool option"
  openArg :: "bool option"

record Project =
  project_name :: jsstr
  project_path :: jsstr

text \<open>\<open>account_name\<close> is what \<open>Array.prototype.find\<close> returned: \<open>undefined\<close> when no
  key passed the test.\<close>

record Account =
  account_id :: jsstr
  account_name :: "jsstr option"

record FrameworkConfig =
  deployCommand :: "jsstr option"
  devCommand :: "jsstr option"

record Framework =
  config :: FrameworkConfig

record PagesGeneratorContext =
  args :: PagesGeneratorArgs
  project :: Project
  account :: "Account option"
  framework :: "Framework option"
  deployedUrl :: "jsstr option"

section \<open>Failures\<close>

text \<open>
  Modelled from the spec: \<open>crash\<close> of \<open>helpers/cli\<close>, which the source imports. The
  specification's fatal failures abort the whole pipeline with a message, so \<open>crash msg\<close>
  ends the step with \<open>Crash msg\<close> and nothing after it runs. \<open>Thrown\<close> is the rejection
  of an external call (a command that exits non-zero, a failed listing), \<open>TypeError\<close> a
  method call on \<open>undefined\<close>.
\<close>

datatype error = Crash jsstr | Thrown jsstr | TypeError

definition DirectoryConflict :: "jsstr \<Rightarrow> error" where
  "DirectoryConflict p =
     Crash (lit ''Directory `'' @ p @ lit ''` already exists. Please choose a new name.'')"

definition MissingAccount :: error where
  "MissingAccount = Crash (lit ''Failed to read Cloudflare account.'')"

definition NoDeploymentUrl :: error where
  "NoDeploymentUrl = Crash (lit ''Failed to find deployment url.'')"

section \<open>The external collaborators\<close>

text \<open>
  One call of \<open>runCommand\<close>: the command line and the options that reach the process
  (the spinner and its captions are presentation).
\<close>

record invocation =
  command :: jsstr
  cwd :: "jsstr option"
  env :: "(jsstr \<times> jsstr) list"

record confirmOptions =
  question :: jsstr
  initialValue :: "bool option"
  defaultValue :: "bool option"

record selectOption =
  label :: jsstr
  val :: jsstr

text \<open>
  The helpers imported from \<open>helpers/command\<close> and \<open>helpers/interactive\<close> are
  parameters: any behaviour of theirs is a value of this record. The process runner
  answers a call knowing every call made before it, so a command may change what a later
  one reports; it resolves with the captured output (\<open>Inr\<close>) or rejects (\<open>Inl\<close>).
  \<open>on_listAccounts\<close> gives \<open>Object.entries\<close> of the listing, in the order
  \<open>Object.keys\<close> enumerates it.
\<close>

record collaborators =
  npm :: jsstr
  on_runCommand :: "invocation list \<Rightarrow> invocation \<Rightarrow> jsstr + jsstr"
  on_confirmInput :: "confirmOptions \<Rightarrow> bool"
  on_selectInput :: "selectOption list \<Rightarrow> jsstr"
  on_wranglerLogin :: "jsstr + bool"
  on_listAccounts :: "jsstr + (jsstr \<times> jsstr) list"

text \<open>
  What a step works on: the context it mutates, the commands run so far, and the
  advisories shown so far.
\<close>

record state =
  ctx :: PagesGeneratorContext
  invoked :: "invocation list"
  advisories :: "jsstr list"

definition runCommand :: "collaborators \<Rightarrow> invocation \<Rightarrow> state \<Rightarrow> (error + jsstr) \<times> state" where
  "runCommand e call s =
     (case on_runCommand e (invoked s) call of
        Inl msg \<Rightarrow> (Inl (Thrown msg), s\<lparr>invoked := invoked s @ [call]\<rparr>)
      | Inr out \<Rightarrow> (Inr out, s\<lparr>invoked := invoked s @ [call]\<rparr>))"

text \<open>
  Modelled from the spec: \<open>updateStatus\<close> of \<open>helpers/cli\<close>, which the source imports.
  It emits a non-fatal advisory and the step goes on.
\<close>

definition updateStatus :: "jsstr \<Rightarrow> state \<Rightarrow> state" where
  "updateStatus msg s = s\<lparr>advisories := advisories s @ [msg]\<rparr>"

section \<open>setupProjectDirectory\<close>

text \<open>
  \<open>resolve\<close>, \<open>dirname\<close> and \<open>basename\<close> of Node's \<open>path\<close>, and \<open>existsSync\<close>,
  \<open>mkdirSync\<close> and \<open>chdir\<close>, are parameters; the two that write may throw.
\<close>

record 'fs node =
  process_cwd :: "'fs \<Rightarrow> jsstr"
  resolve :: "'fs \<Rightarrow> jsstr \<Rightarrow> jsstr"
  dirname :: "jsstr \<Rightarrow> jsstr"
  basename :: "jsstr \<Rightarrow> jsstr"
  existsSync :: "'fs \<Rightarrow> jsstr \<Rightarrow> bool"
  mkdirSync_recursive :: "jsstr \<Rightarrow> 'fs \<Rightarrow> jsstr + 'fs"
  chdir :: "jsstr \<Rightarrow> 'fs \<Rightarrow> jsstr + 'fs"

definition setupProjectDirectory ::
  "'fs node \<Rightarrow> PagesGeneratorArgs \<Rightarrow> 'fs \<Rightarrow> error + (Project \<times> 'fs)" where
  "setupProjectDirectory n a fs =
     (let path = resolve n fs (projectName a);
          isCWD = (path = process_cwd n fs);
          existsAlready = existsSync n fs path
      in if \<not> isCWD \<and> existsAlready then Inl (DirectoryConflict (projectName a))
         else
           (let directory = dirname n path; name = basename n path
            in case mkdirSync_recursive n directory fs of
                 Inl msg \<Rightarrow> Inl (Thrown msg)
               | Inr fs1 \<Rightarrow>
                   (case chdir n directory fs1 of
                      Inl msg \<Rightarrow> Inl (Thrown msg)
                    | Inr fs2 \<Rightarrow> Inr (\<lparr>project_name = name, project_path = path\<rparr>, fs2))))"

section \<open>chooseAccount and offerToDeploy\<close>

text \<open>
  \<open>accounts[name]\<close> is \<open>map_of accounts name\<close>, and \<open>Object.keys(accounts)\<close> the first
  components. With one key, \<open>Object.keys(accounts)[0]\<close> and its entry exist, so \<open>hd\<close> and
  \<open>the\<close> read what is there. The spinner is presentation.
\<close>

definition chooseAccount :: "collaborators \<Rightarrow> state \<Rightarrow> (error + unit) \<times> state" where
  "chooseAccount e s =
     (case on_listAccounts e of
        Inl msg \<Rightarrow> (Inl (Thrown msg), s)
      | Inr accounts \<Rightarrow>
          (let keys = map fst accounts;
               accountId =
                 (if length keys = 1 then the (map_of accounts (hd keys))
                  else on_selectInput e
                         (map (\<lambda>(name, id). \<lparr>label = name, val = id\<rparr>) accounts));
               accountName = find (\<lambda>name. map_of accounts name = Some accountId) keys
           in (Inr (),
               s\<lparr>ctx := (ctx s)\<lparr>account :=
                    Some \<lparr>account_id = accountId, account_name = accountName\<rparr>\<rparr>\<rparr>)))"

definition deployScript :: "PagesGeneratorContext \<Rightarrow> jsstr" where
  "deployScript c =
     nullish (case framework c of None \<Rightarrow> None | Some f \<Rightarrow> deployCommand (config f))
       (lit ''deploy'')"

definition offerToDeploy :: "collaborators \<Rightarrow> state \<Rightarrow> (error + unit) \<times> state" where
  "offerToDeploy e s =
     (let answer = on_confirmInput e
            \<lparr>question = lit ''Do you want to deploy your application?'',
             initialValue = deploy (args (ctx s)), defaultValue = None\<rparr>;
          s1 = s\<lparr>ctx := (ctx s)\<lparr>args := (args (ctx s))\<lparr>deploy := Some answer\<rparr>\<rparr>\<rparr>
      in if \<not> answer then (Inr (), s1)
         else
           (case on_wranglerLogin e of
              Inl msg \<Rightarrow> (Inl (Thrown msg), s1)
            | Inr loginSuccess \<Rightarrow>
                if \<not> loginSuccess then (Inr (), s1) else chooseAccount e s1))"

section \<open>runDeploy\<close>

text \<open>
  Lines 104 to 109 of the source, the last statement of \<open>runDeploy\<close>: "if a pages url
  (<sha1>.<project>.pages.dev), remove the sha1". \<open>hostname\<close> is \<open>undefined\<close> when the
  split has one piece, and \<open>hostname.split\<close> then throws.
\<close>

definition removeSha1 :: "jsstr \<Rightarrow> error + jsstr" where
  "removeSha1 url =
     (if endsWith url (lit ''.pages.dev'') then
        (case split_str (lit ''://'') url of
           proto # hostname # _ \<Rightarrow>
             Inr (proto @ lit ''://'' @
                  join_str (lit ''.'') (slice_last 3 (split_str (lit ''.'') hostname)))
         | _ \<Rightarrow> Inl TypeError)
      else Inr url)"

definition deployInvocation :: "collaborators \<Rightarrow> PagesGeneratorContext \<Rightarrow> jsstr \<Rightarrow> invocation" where
  "deployInvocation e c accountId =
     \<lparr>command = npm e @ lit '' run '' @ deployScript c,
      cwd = Some (project_path (project c)),
      env = [(lit ''CLOUDFLARE_ACCOUNT_ID'', accountId)]\<rparr>"

definition setDeployedUrl :: "jsstr \<Rightarrow> state \<Rightarrow> state" where
  "setDeployedUrl url s = s\<lparr>ctx := (ctx s)\<lparr>deployedUrl := Some url\<rparr>\<rparr>"

definition runDeploy :: "collaborators \<Rightarrow> state \<Rightarrow> (error + unit) \<times> state" where
  "runDeploy e s =
     (if deploy (args (ctx s)) = Some False then (Inr (), s)
      else
        (case account (ctx s) of
           None \<Rightarrow> (Inl MissingAccount, s)
         | Some a \<Rightarrow>
             if account_id a = [] then (Inl MissingAccount, s)
             else
               (case runCommand e (deployInvocation e (ctx s) (account_id a)) s of
                  (Inl err, s1) \<Rightarrow> (Inl err, s1)
                | (Inr result, s1) \<Rightarrow>
                    (case deployedUrlMatch result of
                       None \<Rightarrow> (Inl NoDeploymentUrl, s1)
                     | Some m \<Rightarrow>
                         (case removeSha1 m of
                            Inl err \<Rightarrow> (Inl err, setDeployedUrl m s1)
                          | Inr url \<Rightarrow> (Inr (), setDeployedUrl url s1))))))"

section \<open>Version control\<close>

definition gitVersion :: invocation where
  "gitVersion = \<lparr>command = lit ''git -v'', cwd = None, env = []\<rparr>"

definition isGitInstalled :: "collaborators \<Rightarrow> state \<Rightarrow> bool \<times> state" where
  "isGitInstalled e s =
     (case runCommand e gitVersion s of
        (Inr _, s1) \<Rightarrow> (True, s1)
      | (Inl _, s1) \<Rightarrow> (False, s1))"

definition gitStatus :: "jsstr \<Rightarrow> invocation" where
  "gitStatus dir = \<lparr>command = lit ''git status'', cwd = Some dir, env = []\<rparr>"

definition isInsideGitRepo :: "collaborators \<Rightarrow> jsstr \<Rightarrow> state \<Rightarrow> bool \<times> state" where
  "isInsideGitRepo e dir s =
     (case runCommand e (gitStatus dir) s of
        (Inr output, s1) \<Rightarrow> (\<not> includes_str output (lit ''not a git repository''), s1)
      | (Inl _, s1) \<Rightarrow> (False, s1))"

definition gitConfigDefaultBranch :: "jsstr \<Rightarrow> invocation" where
  "gitConfigDefaultBranch dir =
     \<lparr>command = lit ''git config --get init.defaultBranch'', cwd = Some dir, env = []\<rparr>"

definition gitInit :: "jsstr \<Rightarrow> invocation" where
  "gitInit dir = \<lparr>command = lit ''git init'', cwd = Some dir, env = []\<rparr>"

definition gitInitWithBranch :: "jsstr \<Rightarrow> jsstr \<Rightarrow> invocation" where
  "gitInitWithBranch dir defaultBranchName =
     \<lparr>command = lit ''git init --initial-branch '' @
                 nullish (Some (trim defaultBranchName)) (lit ''main''),
      cwd = Some dir, env = []\<rparr>"

definition initializeGit :: "collaborators \<Rightarrow> jsstr \<Rightarrow> state \<Rightarrow> (error + unit) \<times> state" where
  "initializeGit e dir s =
     (let catch = (\<lambda>s'. case runCommand e (gitInit dir) s' of
                           (Inl err, s3) \<Rightarrow> (Inl err, s3)
                         | (Inr _, s3) \<Rightarrow> (Inr (), s3))
      in case runCommand e (gitConfigDefaultBranch dir) s of
           (Inl _, s1) \<Rightarrow> catch s1
         | (Inr defaultBranchName, s1) \<Rightarrow>
             (case runCommand e (gitInitWithBranch dir defaultBranchName) s1 of
                (Inl _, s2) \<Rightarrow> catch s2
              | (Inr _, s2) \<Rightarrow> (Inr (), s2)))"

text \<open>
  \<open>a ??= b\<close> assigns only when \<open>a\<close> is undefined. \<open>printAsyncStatus\<close> of
  \<open>helpers/command\<close> wraps the promise of \<open>initializeGit\<close> in a spinner; it is taken to
  settle as the promise does.
\<close>

definition offerGit :: "collaborators \<Rightarrow> state \<Rightarrow> (error + unit) \<times> state" where
  "offerGit e s =
     (case isGitInstalled e s of
        (False, s1) \<Rightarrow>
          (let s2 = (if git (args (ctx s1)) = Some True
                     then updateStatus
                            (lit ''Couldn't find `git` installed on your machine. Continuing without git.'')
                            s1
                     else s1)
           in (Inr (), s2\<lparr>ctx := (ctx s2)\<lparr>args := (args (ctx s2))\<lparr>git := Some False\<rparr>\<rparr>\<rparr>))
      | (True, s1) \<Rightarrow>
          (case isInsideGitRepo e (project_path (project (ctx s1))) s1 of
             (True, s2) \<Rightarrow> (Inr (), s2)
           | (False, s2) \<Rightarrow>
               (let decided =
                      (case git (args (ctx s2)) of
                         Some g \<Rightarrow> g
                       | None \<Rightarrow> on_confirmInput e
                           \<lparr>question = lit ''Do you want to use git?'',
                            initialValue = None, defaultValue = Some True\<rparr>);
                    s3 = s2\<lparr>ctx := (ctx s2)\<lparr>args := (args (ctx s2))\<lparr>git := Some decided\<rparr>\<rparr>\<rparr>
                in if decided then initializeGit e (project_path (project (ctx s3))) s3
                   else (Inr (), s3))))"

text \<open>The commands of a run that initialize a repository.\<close>

definition isInit :: "invocation \<Rightarrow> bool" where
  "isInit call = prefix (lit ''git init'') (command call)"

text \<open>What a step ran: the commands of \<open>s'\<close> past those of \<open>s\<close>.\<close>

definition newCommands :: "state \<Rightarrow> state \<Rightarrow> invocation list" where
  "newCommands s s' = drop (length (invoked s)) (invoked s')"

text \<open>
  The directory is under version control as the status query sees it after the commands
  \<open>h\<close>: the query succeeds and its output lacks "not a git repository".
\<close>

definition versioned :: "collaborators \<Rightarrow> invocation list \<Rightarrow> jsstr \<Rightarrow> bool" where
  "versioned e h dir =
     (case on_runCommand e h (gitStatus dir) of
        Inr output \<Rightarrow> \<not> includes_str output (lit ''not a git repository'')
      | Inl _ \<Rightarrow> False)"

text \<open>The initialization that asks for the branch \<open>main\<close>.\<close>

definition gitInitMain :: "jsstr \<Rightarrow> invocation" where
  "gitInitMain dir =
     \<lparr>command = lit ''git init --initial-branch main'', cwd = Some dir, env = []\<rparr>"

section \<open>Sample runs\<close>

text \<open>
  Concrete collaborators for the instances below: a process runner that answers from a
  table of command lines and rejects every other command, an operator who says yes and
  picks \<open>acct_3\<close>, a login that is denied, and two accounts.
\<close>

definition scripted ::
  "(jsstr \<times> (jsstr + jsstr)) list \<Rightarrow> invocation list \<Rightarrow> invocation \<Rightarrow> jsstr + jsstr" where
  "scripted table h call =
     (case map_of table (command call) of
        Some answer \<Rightarrow> answer
      | None \<Rightarrow> Inl (lit ''command not found''))"

definition fixture :: "(jsstr \<times> (jsstr + jsstr)) list \<Rightarrow> collaborators" where
  "fixture table =
     \<lparr>npm = lit ''npm'', on_runCommand = scripted table,
      on_confirmInput = (\<lambda>_. True), on_selectInput = (\<lambda>_. lit ''acct_3''),
      on_wranglerLogin = Inr False,
      on_listAccounts =
        Inr [(lit ''acme'', lit ''acct_1''), (lit ''umbrella'', lit ''acct_2'')]\<rparr>"

definition fooState :: state where
  "fooState =
     \<lparr>ctx = \<lparr>args = \<lparr>projectName = lit ''foo'', deploy = None, git = Some True,
                     openArg = None\<rparr>,
             project = \<lparr>project_name = lit ''foo'', project_path = lit ''/home/dev/foo''\<rparr>,
             account = None, framework = None, deployedUrl = None\<rparr>,
      invoked = [], advisories = []\<rparr>"

definition fooReady :: state where
  "fooReady =
     fooState\<lparr>ctx := (ctx fooState)
       \<lparr>args := (args (ctx fooState))\<lparr>deploy := Some True\<rparr>,
        account := Some \<lparr>account_id = lit ''acct_1'', account_name = Some (lit ''acme'')\<rparr>\<rparr>\<rparr>"

text \<open>A machine with git, in a directory that is a repository.\<close>

definition versionedRepo :: collaborators where
  "versionedRepo =
     fixture [(lit ''git -v'', Inr (lit ''git version 2.39.2'')),
              (lit ''git status'', Inr (lit ''On branch main''))]"

text \<open>\<open>init.defaultBranch\<close> configured as the empty string: the query prints an empty
  line.\<close>

definition emptyBranchName :: collaborators where
  "emptyBranchName =
     fixture [(lit ''git config --get init.defaultBranch'', Inr [0x0A]),
              (lit ''git init --initial-branch '', Inr (lit ''Initialized empty Git repository'')),
              (lit ''git init'', Inr (lit ''Initialized empty Git repository''))]"

text \<open>A git without \<open>--initial-branch\<close>, and one whose \<open>init\<close> fails altogether.\<close>

definition oldGit :: collaborators where
  "oldGit =
     fixture [(lit ''git config --get init.defaultBranch'', Inr (lit ''trunk'')),
              (lit ''git init'', Inr (lit ''Initialized empty Git repository''))]"

definition brokenGit :: collaborators where
  "brokenGit = fixture [(lit ''git config --get init.defaultBranch'', Inr (lit ''trunk''))]"

text \<open>A project whose deploy script prints \<open>out\<close> and exits with success.\<close>

definition deploysWith :: "jsstr \<Rightarrow> collaborators" where
  "deploysWith out = fixture [(lit ''npm run deploy'', Inr out)]"

text \<open>An output with two URLs on one line, and one whose URL has a path that ends like a
  deployment host.\<close>

definition twoUrls :: jsstr where
  "twoUrls = lit ''https://abc.myproj.pages.dev (alias: https://branch.myproj.pages.dev)''"

definition docsUrl :: jsstr where
  "docsUrl = lit ''Docs: https://example.com/guide.pages.dev''"

text \<open>A file system that is its working directory and a list of existing paths.\<close>

definition sampleNode :: "(jsstr \<times> jsstr list) node" where
  "sampleNode =
     \<lparr>process_cwd = fst,
      resolve = (\<lambda>fs p. if p = lit ''.'' then fst fs else fst fs @ lit ''/'' @ p),
      dirname = (\<lambda>p. join_str (lit ''/'') (butlast (split_str (lit ''/'') p))),
      basename = (\<lambda>p. last (split_str (lit ''/'') p)),
      existsSync = (\<lambda>fs p. p \<in> set (snd fs)),
      mkdirSync_recursive = (\<lambda>d fs. Inr (fst fs, d # snd fs)),
      chdir = (\<lambda>d fs. Inr (d, snd fs))\<rparr>"

definition sampleArgs :: "jsstr \<Rightarrow> PagesGeneratorArgs" where
  "sampleArgs p = \<lparr>projectName = p, deploy = None, git = None, openArg = None\<rparr>"

section \<open>Path resolution\<close>

text \<open>
  Claim C4. For every project name, when the path resolved from it is not the current
  working directory and an entry exists at that path, \<open>setupProjectDirectory\<close> fails
  with \<open>DirectoryConflict\<close>. When the resolved path is the current working directory,
  it never crashes, and an entry existing there changes nothing: the result is the one
  it gives when nothing exists at the path.
\<close>

theorem setupProjectDirectory_conflict:
  "(resolve n fs (projectName a) \<noteq> process_cwd n fs \<and>
    existsSync n fs (resolve n fs (projectName a))
      \<longrightarrow> setupProjectDirectory n a fs = Inl (DirectoryConflict (projectName a)))
   \<and> (resolve n fs (projectName a) = process_cwd n fs
      \<longrightarrow> (\<forall>msg. setupProjectDirectory n a fs \<noteq> Inl (Crash msg))
        \<and> setupProjectDirectory n a fs =
            setupProjectDirectory (n\<lparr>existsSync := \<lambda>_ _. False\<rparr>) a fs)"
  by (auto simp: setupProjectDirectory_def Let_def split: sum.splits)

theorem setupProjectDirectory_conflict_witness:
  "setupProjectDirectory sampleNode (sampleArgs (lit ''foo''))
       (lit ''/home/dev'', [lit ''/home/dev'', lit ''/home/dev/foo''])
     = Inl (DirectoryConflict (lit ''foo''))
   \<and> setupProjectDirectory sampleNode (sampleArgs (lit ''.''))
       (lit ''/home/dev'', [lit ''/home/dev'', lit ''/home/dev/foo''])
     = setupProjectDirectory (sampleNode\<lparr>existsSync := \<lambda>_ _. False\<rparr>) (sampleArgs (lit ''.''))
         (lit ''/home/dev'', [lit ''/home/dev'', lit ''/home/dev/foo''])
   \<and> setupProjectDirectory sampleNode (sampleArgs (lit ''.''))
       (lit ''/home/dev'', [lit ''/home/dev'', lit ''/home/dev/foo''])
     = Inr (\<lparr>project_name = lit ''dev'', project_path = lit ''/home/dev''\<rparr>,
            (lit ''/home'', [lit ''/home'', lit ''/home/dev'', lit ''/home/dev/foo'']))"
proof -
  let ?fs = "(lit ''/home/dev'', [lit ''/home/dev'', lit ''/home/dev/foo''])"
  have 1: "resolve sampleNode ?fs (projectName (sampleArgs (lit ''foo''))) \<noteq> process_cwd sampleNode ?fs
           \<and> existsSync sampleNode ?fs (resolve sampleNode ?fs (projectName (sampleArgs (lit ''foo''))))"
    by (simp add: sampleNode_def sampleArgs_def lit_def)
  have 2: "resolve sampleNode ?fs (projectName (sampleArgs (lit ''.''))) = process_cwd sampleNode ?fs"
    by (simp add: sampleNode_def sampleArgs_def)
  have 3: "setupProjectDirectory (sampleNode\<lparr>existsSync := \<lambda>_ _. False\<rparr>) (sampleArgs (lit ''.'')) ?fs
           = Inr (\<lparr>project_name = lit ''dev'', project_path = lit ''/home/dev''\<rparr>,
                  (lit ''/home'', [lit ''/home'', lit ''/home/dev'', lit ''/home/dev/foo'']))"
    by (simp add: setupProjectDirectory_def sampleNode_def sampleArgs_def lit_def Let_def)
  from setupProjectDirectory_conflict [of sampleNode ?fs "sampleArgs (lit ''foo'')"] 1
  have "setupProjectDirectory sampleNode (sampleArgs (lit ''foo'')) ?fs
          = Inl (DirectoryConflict (lit ''foo''))"
    by (simp add: sampleArgs_def)
  moreover from setupProjectDirectory_conflict [of sampleNode ?fs "sampleArgs (lit ''.'')"] 2
  have "setupProjectDirectory sampleNode (sampleArgs (lit ''.'')) ?fs
          = setupProjectDirectory (sampleNode\<lparr>existsSync := \<lambda>_ _. False\<rparr>) (sampleArgs (lit ''.'')) ?fs"
    by blast
  ultimately show ?thesis using 3 by simp
qed

section \<open>Account selection and the offer to deploy\<close>

lemma find_reverse_lookup:
  "(case find (\<lambda>name. map_of accounts name = Some v) (map fst accounts) of
      Some name \<Rightarrow> map_of accounts name = Some v
    | None \<Rightarrow> \<forall>name. map_of accounts name \<noteq> Some v)"
proof (cases "find (\<lambda>name. map_of accounts name = Some v) (map fst accounts)")
  case None
  have "map_of accounts name \<noteq> Some v" for name
  proof
    assume m: "map_of accounts name = Some v"
    then have "name \<in> set (map fst accounts)"
      by (metis map_of_eq_None_iff option.distinct(1) set_map)
    with None m show False by (auto simp: find_None_iff)
  qed
  with None show ?thesis by simp
next
  case (Some name)
  then have "map_of accounts name = Some v" by (auto simp: find_Some_iff)
  with Some show ?thesis by simp
qed

text \<open>
  Claim C8, as the code has it. The chosen id (the sole entry's, or the operator's
  answer) is resolved to a name by reverse lookup over the listing: the first name, in
  the order of \<open>Object.keys\<close>, whose id is the chosen one. Selection never fails on the
  lookup: when no name maps to the chosen id, the account is stored with that id and no
  name.
\<close>

theorem chooseAccount_reverse_lookup:
  fixes e :: collaborators and accounts :: "(jsstr \<times> jsstr) list"
  defines "chosen \<equiv>
             (if length accounts = 1 then snd (hd accounts)
              else on_selectInput e (map (\<lambda>(name, id). \<lparr>label = name, val = id\<rparr>) accounts))"
  defines "found \<equiv> find (\<lambda>name. map_of accounts name = Some chosen) (map fst accounts)"
  assumes "on_listAccounts e = Inr accounts"
  shows "chooseAccount e s =
           (Inr (), s\<lparr>ctx := (ctx s)\<lparr>account :=
                        Some \<lparr>account_id = chosen, account_name = found\<rparr>\<rparr>\<rparr>) \<and>
         (case found of
            Some name \<Rightarrow> map_of accounts name = Some chosen
          | None \<Rightarrow> \<forall>name. map_of accounts name \<noteq> Some chosen)"
proof -
  have "the (map_of accounts (hd (map fst accounts))) = snd (hd accounts)"
    if "length accounts = 1"
    using that by (cases accounts) auto
  then have "chooseAccount e s =
           (Inr (), s\<lparr>ctx := (ctx s)\<lparr>account :=
                        Some \<lparr>account_id = chosen, account_name = found\<rparr>\<rparr>\<rparr>)"
    using assms(3) by (simp add: chooseAccount_def Let_def chosen_def found_def)
  moreover have "(case found of
            Some name \<Rightarrow> map_of accounts name = Some chosen
          | None \<Rightarrow> \<forall>name. map_of accounts name \<noteq> Some chosen)"
    unfolding found_def by (rule find_reverse_lookup)
  ultimately show ?thesis by blast
qed

theorem chooseAccount_reverse_lookup_witness:
  "chooseAccount (fixture []) fooState =
     (Inr (), fooState\<lparr>ctx := (ctx fooState)\<lparr>account :=
                Some \<lparr>account_id = lit ''acct_3'', account_name = None\<rparr>\<rparr>\<rparr>)"
  using chooseAccount_reverse_lookup
    [of "fixture []" "[(lit ''acme'', lit ''acct_1''), (lit ''umbrella'', lit ''acct_2'')]"
        fooState]
  by (simp add: fixture_def lit_def)

text \<open>
  Claim C8 as stated fails: the operator's answer \<open>acct_3\<close> is the id of neither
  listed account, and \<open>chooseAccount\<close> ends normally with an account that has no name.
\<close>

theorem chooseAccount_unknown_id_no_error:
  "on_listAccounts (fixture []) =
     Inr [(lit ''acme'', lit ''acct_1''), (lit ''umbrella'', lit ''acct_2'')] \<and>
   fst (chooseAccount (fixture []) fooState) = Inr () \<and>
   account (ctx (snd (chooseAccount (fixture []) fooState))) =
     Some \<lparr>account_id = lit ''acct_3'', account_name = None\<rparr>"
  by (simp add: chooseAccount_def fixture_def fooState_def lit_def)

text \<open>
  Claim C1 fails on the code, shown here. When the operator accepts the deploy and the
  login is denied, \<open>offerToDeploy\<close> returns with \<open>args.deploy\<close> true and no account
  bound. Whatever the steps in between do, as long as they leave these two fields as they
  are, \<open>runDeploy\<close> then runs no command and crashes with "Failed to read Cloudflare
  account.".
\<close>

theorem login_denied_runDeploy_crashes:
  assumes "on_confirmInput e
             \<lparr>question = lit ''Do you want to deploy your application?'',
              initialValue = deploy (args (ctx s)), defaultValue = None\<rparr>"
    and "on_wranglerLogin e = Inr False"
    and "account (ctx s) = None"
    and "offerToDeploy e s = (r1, s1)"
    and "deploy (args (ctx s2)) = deploy (args (ctx s1))"
    and "account (ctx s2) = account (ctx s1)"
  shows "r1 = Inr () \<and> deploy (args (ctx s1)) = Some True \<and>
         runDeploy e s2 = (Inl MissingAccount, s2)"
  using assms by (auto simp: offerToDeploy_def runDeploy_def Let_def)

theorem login_denied_runDeploy_crashes_witness:
  "on_wranglerLogin (fixture []) = Inr False \<and>
   fst (offerToDeploy (fixture []) fooState) = Inr () \<and>
   runDeploy (fixture []) (snd (offerToDeploy (fixture []) fooState)) =
     (Inl (Crash (lit ''Failed to read Cloudflare account.'')),
      snd (offerToDeploy (fixture []) fooState))"
  using login_denied_runDeploy_crashes
    [of "fixture []" fooState "fst (offerToDeploy (fixture []) fooState)"
        "snd (offerToDeploy (fixture []) fooState)"
        "snd (offerToDeploy (fixture []) fooState)"]
  by (simp add: fixture_def fooState_def MissingAccount_def)

section \<open>Version control\<close>

lemma offerGit_inside_repo:
  assumes "versioned e (invoked s @ [gitVersion]) (project_path (project (ctx s)))"
  shows "fst (offerGit e s) = Inr ()
       \<and> project (ctx (snd (offerGit e s))) = project (ctx s)
       \<and> (\<exists>cs. invoked (snd (offerGit e s)) = invoked s @ cs \<and> \<not> list_ex isInit cs)"
proof (cases "on_runCommand e (invoked s) gitVersion")
  case (Inl msg)
  then show ?thesis
    by (simp add: offerGit_def isGitInstalled_def runCommand_def gitVersion_def
        updateStatus_def isInit_def lit_def)
next
  case (Inr out)
  with assms show ?thesis
    by (auto simp: offerGit_def isGitInstalled_def isInsideGitRepo_def runCommand_def
        gitVersion_def gitStatus_def versioned_def isInit_def lit_def split: sum.splits)
qed

text \<open>
  Claim C5. When \<open>git -v\<close> fails and \<open>args.git\<close> is true on input, \<open>offerGit\<close> ends
  normally with \<open>args.git\<close> false; the only command it ran is \<open>git -v\<close>, so none that
  initializes a repository; and it showed one advisory through \<open>updateStatus\<close>.
\<close>

theorem offerGit_without_git:
  assumes "on_runCommand e (invoked s) gitVersion = Inl msg"
    and "git (args (ctx s)) = Some True"
  shows "offerGit e s =
           (Inr (),
            s\<lparr>ctx := (ctx s)\<lparr>args := (args (ctx s))\<lparr>git := Some False\<rparr>\<rparr>,
              invoked := invoked s @ [gitVersion],
              advisories := advisories s @
                [lit ''Couldn't find `git` installed on your machine. Continuing without git.'']\<rparr>)
         \<and> \<not> list_ex isInit (newCommands s (snd (offerGit e s)))"
  using assms
  by (simp add: offerGit_def isGitInstalled_def runCommand_def gitVersion_def updateStatus_def
      newCommands_def isInit_def lit_def)

theorem offerGit_without_git_witness:
  "fst (offerGit (fixture []) fooState) = Inr () \<and>
   git (args (ctx (snd (offerGit (fixture []) fooState)))) = Some False \<and>
   invoked (snd (offerGit (fixture []) fooState)) = [gitVersion] \<and>
   length (advisories (snd (offerGit (fixture []) fooState))) = 1 \<and>
   \<not> list_ex isInit (newCommands fooState (snd (offerGit (fixture []) fooState)))"
proof -
  have 1: "on_runCommand (fixture []) (invoked fooState) gitVersion = Inl (lit ''command not found'')"
    by (simp add: fixture_def scripted_def)
  have 2: "git (args (ctx fooState)) = Some True"
    by (simp add: fooState_def)
  from offerGit_without_git [OF 1 2] show ?thesis
    by (simp add: fooState_def newCommands_def isInit_def gitVersion_def lit_def)
qed

text \<open>
  Claim C9. When the directory is under version control as \<open>offerGit\<close>'s status query
  sees it, \<open>offerGit\<close> ends normally and runs no command that initializes a repository;
  when that is so at the second run's query too, neither run does.
\<close>

theorem offerGit_versioned_no_init:
  "versioned e (invoked s @ [gitVersion]) (project_path (project (ctx s))) \<longrightarrow>
     fst (offerGit e s) = Inr () \<and>
     \<not> list_ex isInit (newCommands s (snd (offerGit e s))) \<and>
     (versioned e (invoked (snd (offerGit e s)) @ [gitVersion])
        (project_path (project (ctx s))) \<longrightarrow>
        fst (offerGit e (snd (offerGit e s))) = Inr () \<and>
        \<not> list_ex isInit (newCommands s (snd (offerGit e (snd (offerGit e s))))))"
proof (intro impI conjI)
  assume v1: "versioned e (invoked s @ [gitVersion]) (project_path (project (ctx s)))"
  from offerGit_inside_repo [OF v1] obtain cs1 where
    r1: "fst (offerGit e s) = Inr ()" and
    p1: "project (ctx (snd (offerGit e s))) = project (ctx s)" and
    c1: "invoked (snd (offerGit e s)) = invoked s @ cs1" "\<not> list_ex isInit cs1"
    by blast
  show "fst (offerGit e s) = Inr ()" by (rule r1)
  show "\<not> list_ex isInit (newCommands s (snd (offerGit e s)))"
    using c1 by (simp add: newCommands_def)
  assume "versioned e (invoked (snd (offerGit e s)) @ [gitVersion])
            (project_path (project (ctx s)))"
  then have "versioned e (invoked (snd (offerGit e s)) @ [gitVersion])
               (project_path (project (ctx (snd (offerGit e s)))))"
    by (simp add: p1)
  from offerGit_inside_repo [OF this] obtain cs2 where
    r2: "fst (offerGit e (snd (offerGit e s))) = Inr ()" and
    c2: "invoked (snd (offerGit e (snd (offerGit e s)))) = invoked (snd (offerGit e s)) @ cs2"
        "\<not> list_ex isInit cs2"
    by blast
  show "fst (offerGit e (snd (offerGit e s))) = Inr ()" by (rule r2)
  show "\<not> list_ex isInit (newCommands s (snd (offerGit e (snd (offerGit e s)))))"
    using c1 c2 by (simp add: newCommands_def)
qed

theorem offerGit_versioned_no_init_witness:
  "versioned versionedRepo (invoked fooState @ [gitVersion])
     (project_path (project (ctx fooState))) \<and>
   fst (offerGit versionedRepo fooState) = Inr () \<and>
   \<not> list_ex isInit (newCommands fooState (snd (offerGit versionedRepo fooState))) \<and>
   fst (offerGit versionedRepo (snd (offerGit versionedRepo fooState))) = Inr () \<and>
   \<not> list_ex isInit
       (newCommands fooState
          (snd (offerGit versionedRepo (snd (offerGit versionedRepo fooState)))))"
proof -
  have v: "versioned versionedRepo h (project_path (project (ctx fooState)))" for h
    by (simp add: versioned_def versionedRepo_def fixture_def scripted_def gitStatus_def
        includes_str_def lit_def sublist_code)
  from offerGit_versioned_no_init [of versionedRepo fooState] v show ?thesis
    by blast
qed

text \<open>
  Claim C6 fails on the code, shown here. \<open>trim\<close> always gives a string, so
  \<open>defaultBranchName.trim() ?? "main"\<close> is never \<open>"main"\<close> by the fallback. When the
  configured name is empty (the query prints only white space), the initialization run
  is \<open>git init --initial-branch\<close> followed by a space and no name; when it is unset (the
  query fails), the plain \<open>git init\<close> runs. The branch \<open>main\<close> is asked for in neither.
\<close>

theorem initializeGit_never_asks_for_main:
  "(on_runCommand e (invoked s) (gitConfigDefaultBranch dir) = Inr d \<and> trim d = [] \<longrightarrow>
      take 2 (newCommands s (snd (initializeGit e dir s))) =
        [gitConfigDefaultBranch dir,
         \<lparr>command = lit ''git init --initial-branch '', cwd = Some dir, env = []\<rparr>] \<and>
      gitInitMain dir \<notin> set (newCommands s (snd (initializeGit e dir s))))
   \<and> (on_runCommand e (invoked s) (gitConfigDefaultBranch dir) = Inl msg \<longrightarrow>
      newCommands s (snd (initializeGit e dir s)) = [gitConfigDefaultBranch dir, gitInit dir])"
  by (auto simp: initializeGit_def runCommand_def newCommands_def gitInitWithBranch_def
      nullish_def gitInitMain_def gitInit_def gitConfigDefaultBranch_def lit_def
      split: sum.splits)

theorem initializeGit_never_asks_for_main_witness:
  "newCommands fooState (snd (initializeGit emptyBranchName (lit ''/home/dev/foo'') fooState)) =
     [gitConfigDefaultBranch (lit ''/home/dev/foo''),
      \<lparr>command = lit ''git init --initial-branch '', cwd = Some (lit ''/home/dev/foo''),
       env = []\<rparr>]
   \<and> newCommands fooState (snd (initializeGit (fixture []) (lit ''/home/dev/foo'') fooState)) =
     [gitConfigDefaultBranch (lit ''/home/dev/foo''), gitInit (lit ''/home/dev/foo'')]"
proof -
  have 1: "on_runCommand emptyBranchName (invoked fooState)
             (gitConfigDefaultBranch (lit ''/home/dev/foo'')) = Inr [0x0A] \<and> trim [0x0A] = []"
    by (simp add: emptyBranchName_def fixture_def scripted_def gitConfigDefaultBranch_def
        trim_def trimmable_def lineTerminator_def fooState_def)
  have 2: "on_runCommand (fixture []) (invoked fooState)
             (gitConfigDefaultBranch (lit ''/home/dev/foo'')) = Inl (lit ''command not found'')"
    by (simp add: fixture_def scripted_def)
  have 3: "length (newCommands fooState
             (snd (initializeGit emptyBranchName (lit ''/home/dev/foo'') fooState))) = 2"
    by (simp add: initializeGit_def runCommand_def newCommands_def emptyBranchName_def fixture_def
        scripted_def gitConfigDefaultBranch_def gitInitWithBranch_def nullish_def trim_def
        trimmable_def lineTerminator_def fooState_def lit_def)
  from initializeGit_never_asks_for_main
         [of emptyBranchName fooState "lit ''/home/dev/foo''" "[0x0A]"] 1 3
  have "newCommands fooState
          (snd (initializeGit emptyBranchName (lit ''/home/dev/foo'') fooState)) =
     [gitConfigDefaultBranch (lit ''/home/dev/foo''),
      \<lparr>command = lit ''git init --initial-branch '', cwd = Some (lit ''/home/dev/foo''),
       env = []\<rparr>]"
    by simp
  moreover from initializeGit_never_asks_for_main
         [of "fixture []" fooState "lit ''/home/dev/foo''" _ "lit ''command not found''"] 2
  have "newCommands fooState (snd (initializeGit (fixture []) (lit ''/home/dev/foo'') fooState)) =
     [gitConfigDefaultBranch (lit ''/home/dev/foo''), gitInit (lit ''/home/dev/foo'')]"
    by blast
  ultimately show ?thesis by simp
qed

text \<open>
  Claim C7, as the code has it. When the default branch name was read and the
  initialization that names it fails, \<open>initializeGit\<close> runs the plain \<open>git init\<close> once,
  and nothing after it; it ends as that command does, so a failure of the plain \<open>git init\<close>
  leaves \<open>initializeGit\<close> as its error.
\<close>

theorem initializeGit_retries_once:
  assumes "on_runCommand e (invoked s) (gitConfigDefaultBranch dir) = Inr d"
    and "on_runCommand e (invoked s @ [gitConfigDefaultBranch dir]) (gitInitWithBranch dir d)
           = Inl msg"
  shows "newCommands s (snd (initializeGit e dir s)) =
           [gitConfigDefaultBranch dir, gitInitWithBranch dir d, gitInit dir] \<and>
         fst (initializeGit e dir s) =
           (case on_runCommand e
                   (invoked s @ [gitConfigDefaultBranch dir, gitInitWithBranch dir d])
                   (gitInit dir) of
              Inl msg' \<Rightarrow> Inl (Thrown msg')
            | Inr _ \<Rightarrow> Inr ())"
  using assms
  by (simp add: initializeGit_def runCommand_def newCommands_def split: sum.splits)

theorem initializeGit_retries_once_witness:
  "newCommands fooState (snd (initializeGit oldGit (lit ''/home/dev/foo'') fooState)) =
     [gitConfigDefaultBranch (lit ''/home/dev/foo''),
      gitInitWithBranch (lit ''/home/dev/foo'') (lit ''trunk''),
      gitInit (lit ''/home/dev/foo'')] \<and>
   fst (initializeGit oldGit (lit ''/home/dev/foo'') fooState) = Inr ()"
proof -
  have 1: "on_runCommand oldGit (invoked fooState)
             (gitConfigDefaultBranch (lit ''/home/dev/foo'')) = Inr (lit ''trunk'')"
    by (simp add: oldGit_def fixture_def scripted_def gitConfigDefaultBranch_def)
  have 2: "on_runCommand oldGit
             (invoked fooState @ [gitConfigDefaultBranch (lit ''/home/dev/foo'')])
             (gitInitWithBranch (lit ''/home/dev/foo'') (lit ''trunk''))
           = Inl (lit ''command not found'')"
    by (simp add: oldGit_def fixture_def scripted_def gitInitWithBranch_def nullish_def trim_def
        trimmable_def lineTerminator_def lit_def)
  have 3: "on_runCommand oldGit h (gitInit (lit ''/home/dev/foo''))
           = Inr (lit ''Initialized empty Git repository'')" for h
    by (simp add: oldGit_def fixture_def scripted_def gitInit_def lit_def)
  from initializeGit_retries_once [OF 1 2] show ?thesis
    by (simp add: 3)
qed

text \<open>
  Claim C7 as stated fails: with a git whose every \<open>init\<close> fails, the initialization that
  names the branch fails, the plain one is tried and fails, and \<open>initializeGit\<close> ends with
  that error.
\<close>

theorem initializeGit_fallback_raises:
  "on_runCommand brokenGit [gitConfigDefaultBranch (lit ''/home/dev/foo'')]
     (gitInitWithBranch (lit ''/home/dev/foo'') (lit ''trunk''))
     = Inl (lit ''command not found'') \<and>
   newCommands fooState (snd (initializeGit brokenGit (lit ''/home/dev/foo'') fooState)) =
     [gitConfigDefaultBranch (lit ''/home/dev/foo''),
      gitInitWithBranch (lit ''/home/dev/foo'') (lit ''trunk''),
      gitInit (lit ''/home/dev/foo'')] \<and>
   fst (initializeGit brokenGit (lit ''/home/dev/foo'') fooState) =
     Inl (Thrown (lit ''command not found''))"
  by (simp add: initializeGit_def runCommand_def newCommands_def brokenGit_def fixture_def
      scripted_def gitConfigDefaultBranch_def gitInitWithBranch_def gitInit_def nullish_def
      trim_def trimmable_def lineTerminator_def fooState_def lit_def)

section \<open>The matcher against the pattern\<close>

lemma matchSuffix_Some:
  "matchSuffix s = Some sfx \<Longrightarrow>
     prefix sfx s \<and> (sfx = lit ''.pages.dev'' \<or> sfx = lit ''.workers.dev'')"
  by (auto simp: matchSuffix_def split: if_splits)

lemma matchSuffix_append:
  "sfx = lit ''.pages.dev'' \<or> sfx = lit ''.workers.dev'' \<Longrightarrow> matchSuffix (sfx @ after) \<noteq> None"
  by (auto simp: matchSuffix_def)

lemma backtrack_Some:
  "backtrack k rest = Some m \<Longrightarrow>
     \<exists>j sfx. 0 < j \<and> j \<le> k \<and> matchSuffix (drop j rest) = Some sfx \<and> m = take j rest @ sfx"
proof (induction k)
  case 0
  then show ?case by simp
next
  case (Suc k)
  show ?case
  proof (cases "matchSuffix (drop (Suc k) rest)")
    case None
    with Suc.prems have "backtrack k rest = Some m" by simp
    from Suc.IH [OF this] obtain j sfx where
      "0 < j" "j \<le> k" "matchSuffix (drop j rest) = Some sfx" "m = take j rest @ sfx"
      by blast
    moreover from this have "j \<le> Suc k" by simp
    ultimately show ?thesis by blast
  next
    case (Some sfx)
    with Suc.prems have "m = take (Suc k) rest @ sfx" by simp
    with Some show ?thesis by blast
  qed
qed

lemma backtrack_finds:
  "0 < j \<Longrightarrow> j \<le> k \<Longrightarrow> matchSuffix (drop j rest) \<noteq> None \<Longrightarrow> backtrack k rest \<noteq> None"
proof (induction k)
  case 0
  then show ?case by simp
next
  case (Suc k)
  show ?case
  proof (cases "j = Suc k")
    case True
    with Suc.prems show ?thesis by (auto split: option.splits)
  next
    case False
    with Suc.prems have "j \<le> k" by simp
    with Suc show ?thesis by (auto split: option.splits)
  qed
qed

lemma matchHere_Some:
  assumes "matchHere s = Some m"
  shows "\<exists>host sfx after. s = lit ''https://'' @ host @ sfx @ after \<and>
           m = lit ''https://'' @ host @ sfx \<and> host \<noteq> [] \<and>
           list_all (\<lambda>c. \<not> lineTerminator c) host \<and>
           (sfx = lit ''.pages.dev'' \<or> sfx = lit ''.workers.dev'')"
proof -
  define rest where "rest = drop (length (lit ''https://'')) s"
  define run where "run = takeWhile (\<lambda>c. \<not> lineTerminator c) rest"
  from assms have p: "prefix (lit ''https://'') s"
    by (auto simp: matchHere_def split: if_splits)
  then have s: "s = lit ''https://'' @ rest"
    by (auto simp: rest_def prefix_def)
  from assms p obtain m' where
    m': "backtrack (length run) rest = Some m'" and m: "m = lit ''https://'' @ m'"
    by (auto simp: matchHere_def Let_def rest_def run_def)
  from backtrack_Some [OF m'] obtain j sfx where
    j: "0 < j" "j \<le> length run" and sfx: "matchSuffix (drop j rest) = Some sfx" and
    mj: "m' = take j rest @ sfx"
    by blast
  from matchSuffix_Some [OF sfx] obtain after where
    after: "drop j rest = sfx @ after" and
    alt: "sfx = lit ''.pages.dev'' \<or> sfx = lit ''.workers.dev''"
    by (auto simp: prefix_def)
  have "rest = take j rest @ sfx @ after"
    using after by (metis append_take_drop_id)
  moreover have "take j rest \<noteq> []"
    using j after alt by (auto simp: lit_def)
  moreover have "take j rest = take j run"
    using j by (metis run_def takeWhile_dropWhile_id take_append diff_is_0_eq take_0 append_Nil2)
  then have "list_all (\<lambda>c. \<not> lineTerminator c) (take j rest)"
    by (metis (mono_tags, lifting) in_set_takeD list_all_iff run_def set_takeWhileD)
  ultimately show ?thesis using s m mj alt by metis
qed

lemma matchHere_finds:
  assumes "host \<noteq> []" and "list_all (\<lambda>c. \<not> lineTerminator c) host"
    and "sfx = lit ''.pages.dev'' \<or> sfx = lit ''.workers.dev''"
  shows "matchHere (lit ''https://'' @ host @ sfx @ after) \<noteq> None"
proof -
  let ?rest = "host @ sfx @ after"
  have "takeWhile (\<lambda>c. \<not> lineTerminator c) ?rest =
          host @ takeWhile (\<lambda>c. \<not> lineTerminator c) (sfx @ after)"
    using assms(2) by (simp add: list_all_iff)
  then have len: "length host \<le> length (takeWhile (\<lambda>c. \<not> lineTerminator c) ?rest)"
    by simp
  have "matchSuffix (drop (length host) ?rest) \<noteq> None"
    using matchSuffix_append [OF assms(3)] by simp
  with assms(1) len
  have "backtrack (length (takeWhile (\<lambda>c. \<not> lineTerminator c) ?rest)) ?rest \<noteq> None"
    by (intro backtrack_finds [where j = "length host"]) auto
  then show ?thesis
    by (simp add: matchHere_def Let_def)
qed

lemma deployedUrlMatch_Some:
  "deployedUrlMatch out = Some m \<Longrightarrow> \<exists>before s. out = before @ s \<and> matchHere s = Some m"
proof (induction out)
  case Nil
  then show ?case by simp
next
  case (Cons c cs)
  show ?case
  proof (cases "matchHere (c # cs)")
    case None
    with Cons.prems have "deployedUrlMatch cs = Some m" by simp
    from Cons.IH [OF this] obtain before s where "cs = before @ s" "matchHere s = Some m"
      by blast
    then have "c # cs = (c # before) @ s \<and> matchHere s = Some m" by simp
    then show ?thesis by blast
  next
    case (Some m')
    with Cons.prems have "matchHere (c # cs) = Some m" by simp
    then have "c # cs = [] @ (c # cs) \<and> matchHere (c # cs) = Some m" by simp
    then show ?thesis by blast
  qed
qed

lemma matchHere_Nil: "matchHere [] = None"
  by (simp add: matchHere_def lit_def)

lemma deployedUrlMatch_finds:
  "matchHere s \<noteq> None \<Longrightarrow> deployedUrlMatch (before @ s) \<noteq> None"
proof (induction before)
  case Nil
  then show ?case by (cases s) (auto simp: matchHere_Nil)
next
  case (Cons c before)
  then show ?case by (auto split: option.splits)
qed

lemma deployedUrlMatch_https:
  assumes "deployedUrlMatch out = Some m"
  shows "\<exists>rest. m = lit ''https://'' @ rest"
proof -
  from deployedUrlMatch_Some [OF assms] obtain before s where "matchHere s = Some m" by blast
  from matchHere_Some [OF this] show ?thesis by blast
qed

lemma deployedUrlMatch_None_iff:
  "deployedUrlMatch out = None \<longleftrightarrow> \<not> containsDeploymentUrl out"
proof
  assume none: "deployedUrlMatch out = None"
  show "\<not> containsDeploymentUrl out"
  proof
    assume "containsDeploymentUrl out"
    then obtain before host sfx after where
      "out = before @ lit ''https://'' @ host @ sfx @ after" "host \<noteq> []"
      "list_all (\<lambda>c. \<not> lineTerminator c) host"
      "sfx = lit ''.pages.dev'' \<or> sfx = lit ''.workers.dev''"
      unfolding containsDeploymentUrl_def by blast
    with matchHere_finds deployedUrlMatch_finds have "deployedUrlMatch out \<noteq> None"
      by metis
    with none show False by simp
  qed
next
  assume no: "\<not> containsDeploymentUrl out"
  show "deployedUrlMatch out = None"
  proof (rule ccontr)
    assume "deployedUrlMatch out \<noteq> None"
    then obtain m where "deployedUrlMatch out = Some m" by blast
    from deployedUrlMatch_Some [OF this] obtain before s where
      out: "out = before @ s" and "matchHere s = Some m" by blast
    from matchHere_Some [OF this(2)] obtain host sfx after where
      "s = lit ''https://'' @ host @ sfx @ after" "host \<noteq> []"
      "list_all (\<lambda>c. \<not> lineTerminator c) host"
      "sfx = lit ''.pages.dev'' \<or> sfx = lit ''.workers.dev''"
      by blast
    with out have "containsDeploymentUrl out"
      unfolding containsDeploymentUrl_def by blast
    with no show False by simp
  qed
qed

lemma deploymentHost_split:
  assumes "deploymentHost h"
  shows "\<exists>x sfx. h = x @ sfx \<and> x \<noteq> [] \<and> (sfx = lit ''.pages.dev'' \<or> sfx = lit ''.workers.dev'')"
proof -
  from assms consider
    (p) "suffix (lit ''.pages.dev'') h" "length (lit ''.pages.dev'' :: jsstr) < length h"
    | (w) "suffix (lit ''.workers.dev'') h" "length (lit ''.workers.dev'' :: jsstr) < length h"
    by (auto simp: deploymentHost_def endsWith_def)
  then show ?thesis
  proof cases
    case p
    then obtain x where "h = x @ lit ''.pages.dev''" by (auto simp: suffix_def)
    with p(2) show ?thesis by auto
  next
    case w
    then obtain x where "h = x @ lit ''.workers.dev''" by (auto simp: suffix_def)
    with w(2) show ?thesis by auto
  qed
qed

lemma hostEnd_lineTerminator: "lineTerminator c \<Longrightarrow> hostEnd c"
  by (simp add: hostEnd_def trimmable_def)

lemma containsDeploymentUrl_Cons:
  "containsDeploymentUrl cs \<Longrightarrow> containsDeploymentUrl (c # cs)"
  unfolding containsDeploymentUrl_def
  by (metis append_Cons)

lemma holds_imp_contains:
  "holdsDeploymentHostUrl out \<Longrightarrow> containsDeploymentUrl out"
proof (induction out)
  case Nil
  then show ?case by simp
next
  case (Cons c cs)
  show ?case
  proof (cases "holdsDeploymentHostUrl cs")
    case True
    with Cons.IH show ?thesis by (simp add: containsDeploymentUrl_Cons)
  next
    case False
    define rest where "rest = drop (length (lit ''https://'')) (c # cs)"
    from False Cons.prems have p: "prefix (lit ''https://'') (c # cs)"
      and d: "deploymentHost (urlHost rest)"
      by (simp_all add: rest_def)
    from p have s: "c # cs = lit ''https://'' @ rest"
      by (auto simp: rest_def prefix_def)
    from deploymentHost_split [OF d] obtain x sfx where
      h: "urlHost rest = x @ sfx" and x: "x \<noteq> []"
      and sfx: "sfx = lit ''.pages.dev'' \<or> sfx = lit ''.workers.dev''"
      by blast
    have "rest = urlHost rest @ dropWhile (\<lambda>c. \<not> hostEnd c) rest"
      by (simp add: urlHost_def)
    with h have r: "rest = x @ sfx @ dropWhile (\<lambda>c. \<not> hostEnd c) rest" by simp
    have "\<not> hostEnd u" if "u \<in> set x" for u
    proof -
      from that h have "u \<in> set (takeWhile (\<lambda>c. \<not> hostEnd c) rest)"
        by (simp add: urlHost_def)
      then show ?thesis by (rule set_takeWhileD [THEN conjunct2])
    qed
    then have "list_all (\<lambda>c. \<not> lineTerminator c) x"
      using hostEnd_lineTerminator by (auto simp: list_all_iff)
    with s r x sfx have "c # cs = [] @ lit ''https://'' @ x @ sfx @ dropWhile (\<lambda>c. \<not> hostEnd c) rest
        \<and> x \<noteq> [] \<and> list_all (\<lambda>c. \<not> lineTerminator c) x
        \<and> (sfx = lit ''.pages.dev'' \<or> sfx = lit ''.workers.dev'')"
      by simp
    then show ?thesis unfolding containsDeploymentUrl_def by blast
  qed
qed

section \<open>Splitting and joining\<close>

lemma split_str_not_Nil: "sep \<noteq> [] \<Longrightarrow> split_str sep s \<noteq> []"
  by (induction sep s rule: split_str.induct) (auto split: list.splits)

lemma sublist_Cons_iff: "sublist sep (c # cs) \<longleftrightarrow> prefix sep (c # cs) \<or> sublist sep cs"
  by (cases sep) (auto simp: sublist_Cons_right)

lemma split_str_no_occurrence:
  "sep \<noteq> [] \<Longrightarrow> \<not> sublist sep s \<Longrightarrow> split_str sep s = [s]"
proof (induction sep s rule: split_str.induct)
  case (1 sep)
  then show ?case by simp
next
  case (2 sep c cs)
  from "2.prems" have np: "\<not> prefix sep (c # cs)" and ns: "\<not> sublist sep cs"
    by (auto simp: sublist_Cons_iff)
  with "2.prems" "2.IH"(3) have "split_str sep cs = [cs]" by simp
  with "2.prems" np show ?case by simp
qed

lemma split_str_char_step:
  "c \<notin> set x \<Longrightarrow> split_str [c] (x @ c # t) = x # split_str [c] t"
  by (induction x) auto

lemma split_str_char_pieces: "l \<in> set (split_str [c] s) \<Longrightarrow> c \<notin> set l"
proof (induction s arbitrary: l)
  case Nil
  then show ?case by simp
next
  case (Cons a s)
  show ?case
  proof (cases "a = c")
    case True
    with Cons show ?thesis by auto
  next
    case False
    obtain p ps where ps: "split_str [c] s = p # ps"
      using split_str_not_Nil [of "[c]" s] by (cases "split_str [c] s") auto
    with False Cons.prems have "l = a # p \<or> l \<in> set ps" by auto
    with Cons.IH ps False show ?thesis by auto
  qed
qed

lemma join_split_str: "sep \<noteq> [] \<Longrightarrow> join_str sep (split_str sep s) = s"
proof (induction sep s rule: split_str.induct)
  case (1 sep)
  then show ?case by simp
next
  case (2 sep c cs)
  show ?case
  proof (cases "prefix sep (c # cs)")
    case True
    then have t: "sep @ drop (length sep) (c # cs) = c # cs"
      by (metis append_eq_conv_conj prefix_def)
    obtain p ps where ps: "split_str sep (drop (length sep) (c # cs)) = p # ps"
      using split_str_not_Nil [OF "2.prems"] by (metis list.exhaust)
    from "2.IH"(2) "2.prems" True
    have "join_str sep (p # ps) = drop (length sep) (c # cs)"
      by (simp add: ps)
    moreover from "2.prems" True ps have "split_str sep (c # cs) = [] # p # ps"
      by simp
    ultimately show ?thesis using t by simp
  next
    case False
    obtain p ps where ps: "split_str sep cs = p # ps"
      using split_str_not_Nil [OF "2.prems"] by (metis list.exhaust)
    from "2.IH"(3) "2.prems" False have "join_str sep (split_str sep cs) = cs" by simp
    with ps "2.prems" False show ?thesis by (cases ps) auto
  qed
qed

lemma split_join_str_char:
  "ls \<noteq> [] \<Longrightarrow> (\<And>l. l \<in> set ls \<Longrightarrow> c \<notin> set l) \<Longrightarrow> split_str [c] (join_str [c] ls) = ls"
proof (induction "[c]" ls rule: join_str.induct)
  case 1
  then show ?case by simp
next
  case (2 x)
  then have "\<not> sublist [c] x" by (auto simp: sublist_def)
  then show ?case by (simp add: split_str_no_occurrence)
next
  case (3 x y ys)
  then show ?case by (simp add: split_str_char_step)
qed

lemma slice_last_subset: "set (slice_last n xs) \<subseteq> set xs"
  by (simp add: slice_last_def set_drop_subset)

lemma slice_last_not_Nil: "xs \<noteq> [] \<Longrightarrow> 0 < n \<Longrightarrow> slice_last n xs \<noteq> []"
  by (cases xs) (auto simp: slice_last_def)

lemma slice_last_short: "length xs \<le> n \<Longrightarrow> slice_last n xs = xs"
  by (simp add: slice_last_def)

lemma length_slice_last: "length (slice_last n xs) \<le> n"
  by (simp add: slice_last_def)

lemma labels_of_rewritten:
  "split_str [c] (join_str [c] (slice_last 3 (split_str [c] h))) = slice_last 3 (split_str [c] h)"
proof (rule split_join_str_char)
  show "slice_last 3 (split_str [c] h) \<noteq> []"
    by (simp add: slice_last_not_Nil split_str_not_Nil)
  show "c \<notin> set l" if "l \<in> set (slice_last 3 (split_str [c] h))" for l
    using that slice_last_subset split_str_char_pieces by fastforce
qed

lemma split_scheme:
  "split_str (lit ''://'') (lit ''https://'' @ rest) = lit ''https'' # split_str (lit ''://'') rest"
proof -
  obtain q qs where "split_str (lit ''://'') rest = q # qs"
    using split_str_not_Nil [of "lit ''://''" rest]
    by (cases "split_str (lit ''://'') rest") (auto simp: lit_def)
  then show ?thesis by (simp add: lit_def)
qed

lemma hd_split_str_prefix: "sep \<noteq> [] \<Longrightarrow> prefix (hd (split_str sep s)) s"
proof (induction sep s rule: split_str.induct)
  case (1 sep)
  then show ?case by simp
next
  case (2 sep c cs)
  then show ?case
    using split_str_not_Nil [of sep cs] by (auto split: list.splits)
qed

lemma hd_split_str_free: "sep \<noteq> [] \<Longrightarrow> \<not> sublist sep (hd (split_str sep s))"
proof (induction sep s rule: split_str.induct)
  case (1 sep)
  then show ?case by simp
next
  case (2 sep c cs)
  show ?case
  proof (cases "prefix sep (c # cs)")
    case True
    with "2.prems" show ?thesis by simp
  next
    case False
    obtain p ps where ps: "split_str sep cs = p # ps"
      using split_str_not_Nil [OF "2.prems"] by (metis list.exhaust)
    from "2.IH"(3) "2.prems" False ps have free: "\<not> sublist sep p" by simp
    from hd_split_str_prefix [OF "2.prems", of cs] ps have "prefix p cs" by simp
    then have "prefix (c # p) (c # cs)" by simp
    with False have "\<not> prefix sep (c # p)" using prefix_order.trans by blast
    with free have "\<not> sublist sep (c # p)" by (simp add: sublist_Cons_iff)
    with "2.prems" False ps show ?thesis by simp
  qed
qed

lemma hd_split_str_no_occurrence:
  "sep \<noteq> [] \<Longrightarrow> \<not> sublist sep s \<Longrightarrow> hd (split_str sep s) = s"
  by (simp add: split_str_no_occurrence)

lemma suffix_join_str_Cons: "suffix (join_str sep xs) (join_str sep (x # xs))"
  by (cases xs) (auto simp: suffix_def)

lemma suffix_join_str_drop: "suffix (join_str sep (drop k ls)) (join_str sep ls)"
proof (induction ls arbitrary: k)
  case Nil
  then show ?case by simp
next
  case (Cons x xs)
  show ?case
  proof (cases k)
    case 0
    then show ?thesis by simp
  next
    case (Suc j)
    have "suffix (join_str sep (drop j xs)) (join_str sep xs)" by (rule Cons.IH)
    also have "suffix (join_str sep xs) (join_str sep (x # xs))" by (rule suffix_join_str_Cons)
    finally show ?thesis using Suc by simp
  qed
qed

lemma kept_free:
  assumes "sep \<noteq> []" and "\<not> sublist sep q"
  shows "\<not> sublist sep (join_str [c] (slice_last n (split_str [c] q)))"
proof
  assume "sublist sep (join_str [c] (slice_last n (split_str [c] q)))"
  moreover have "suffix (join_str [c] (slice_last n (split_str [c] q)))
                   (join_str [c] (split_str [c] q))"
    unfolding slice_last_def by (rule suffix_join_str_drop)
  then have "sublist (join_str [c] (slice_last n (split_str [c] q))) q"
    by (simp add: join_split_str)
  ultimately have "sublist sep q" by (rule sublist_order.order.trans)
  with assms(2) show False by simp
qed

lemma dot: "lit ''.'' = [0x2E]"
  by (simp add: lit_def)

lemma https_scheme: "lit ''https'' @ lit ''://'' @ x = lit ''https://'' @ x"
  by (simp add: lit_def)

lemma removeSha1_https:
  "removeSha1 (lit ''https://'' @ rest) =
     (if endsWith (lit ''https://'' @ rest) (lit ''.pages.dev'')
      then Inr (lit ''https://'' @
                join_str (lit ''.'') (slice_last 3 (split_str (lit ''.'')
                  (hd (split_str (lit ''://'') rest)))))
      else Inr (lit ''https://'' @ rest))"
proof -
  obtain q qs where q: "split_str (lit ''://'') rest = q # qs"
    using split_str_not_Nil [of "lit ''://''" rest]
    by (cases "split_str (lit ''://'') rest") (auto simp: lit_def)
  show ?thesis
    by (simp add: removeSha1_def split_scheme q https_scheme)
qed

lemma removeSha1_kept:
  fixes q :: jsstr
  defines "kept \<equiv> join_str (lit ''.'') (slice_last 3 (split_str (lit ''.'') q))"
  assumes "\<not> sublist (lit ''://'') q"
  shows "removeSha1 (lit ''https://'' @ kept) = Inr (lit ''https://'' @ kept)"
proof -
  have sep: "lit ''://'' \<noteq> ([] :: jsstr)" by (simp add: lit_def)
  have "\<not> sublist (lit ''://'') kept"
    unfolding kept_def dot by (rule kept_free [OF sep assms(2)])
  then have hd: "hd (split_str (lit ''://'') kept) = kept"
    using sep by (rule hd_split_str_no_occurrence [rotated])
  have "split_str (lit ''.'') kept = slice_last 3 (split_str (lit ''.'') q)"
    unfolding kept_def dot by (rule labels_of_rewritten)
  moreover have "slice_last 3 (slice_last 3 (split_str (lit ''.'') q)) =
                   slice_last 3 (split_str (lit ''.'') q)"
    by (rule slice_last_short) (rule length_slice_last)
  ultimately have "join_str (lit ''.'') (slice_last 3 (split_str (lit ''.'') kept)) = kept"
    by (simp add: kept_def)
  with hd show ?thesis by (simp add: removeSha1_https)
qed

lemma removeSha1_idem_https:
  "\<exists>r. removeSha1 (lit ''https://'' @ rest) = Inr r \<and> removeSha1 r = Inr r"
proof (cases "endsWith (lit ''https://'' @ rest) (lit ''.pages.dev'')")
  case True
  have sep: "lit ''://'' \<noteq> ([] :: jsstr)" by (simp add: lit_def)
  have "\<not> sublist (lit ''://'') (hd (split_str (lit ''://'') rest))"
    using sep by (rule hd_split_str_free)
  from removeSha1_kept [OF this] True show ?thesis
    by (simp add: removeSha1_https)
next
  case False
  then show ?thesis by (simp add: removeSha1_https)
qed



lemma split_str_char_append:
  "split_str [c] (x @ c # t) = split_str [c] x @ split_str [c] t"
proof (induction x)
  case Nil
  then show ?case by simp
next
  case (Cons a x)
  obtain p ps where "split_str [c] x = p # ps"
    using split_str_not_Nil [of "[c]" x] by (cases "split_str [c] x") auto
  with Cons show ?case by auto
qed

lemma split_pages_dev:
  assumes "(0x2E :: unit16) \<notin> set a"
  shows "split_str (lit ''.'') (a @ lit ''.pages.dev'') = [a, lit ''pages'', lit ''dev'']"
proof -
  have "split_str [0x2E] (a @ 0x2E # lit ''pages.dev'') = a # split_str [0x2E] (lit ''pages.dev'')"
    using assms by (rule split_str_char_step)
  moreover have "split_str [0x2E :: unit16] (lit ''pages.dev'') = [lit ''pages'', lit ''dev'']"
    by (simp add: lit_def)
  moreover have "a @ lit ''.pages.dev'' = a @ 0x2E # lit ''pages.dev''"
    by (simp add: lit_def)
  ultimately show ?thesis by (simp add: dot)
qed

lemma join_pages_dev:
  "join_str (lit ''.'') [a, lit ''pages'', lit ''dev''] = a @ lit ''.pages.dev''"
  by (simp add: lit_def)

lemma removeSha1_bare:
  assumes "\<not> includes_str rest (lit ''://'')"
    and "endsWith (lit ''https://'' @ rest) (lit ''.pages.dev'')"
  shows "removeSha1 (lit ''https://'' @ rest) =
           Inr (lit ''https://'' @
                join_str (lit ''.'')
                  (drop (length (split_str (lit ''.'') rest) - 3) (split_str (lit ''.'') rest)))"
proof -
  have "hd (split_str (lit ''://'') rest) = rest"
    using assms(1) by (simp add: includes_str_def hd_split_str_no_occurrence lit_def)
  with assms(2) show ?thesis
    by (simp add: removeSha1_https slice_last_def)
qed

lemma labels_of_kept:
  "split_str [c] (join_str [c] (drop (length (split_str [c] h) - 3) (split_str [c] h)))
     = drop (length (split_str [c] h) - 3) (split_str [c] h)"
  using labels_of_rewritten [of c h] by (simp add: slice_last_def)

lemma drop_labels_long:
  assumes "(0x2E :: unit16) \<notin> set a"
  shows "drop (length (split_str (lit ''.'') (p @ lit ''.'' @ a @ lit ''.pages.dev'')) - 3)
           (split_str (lit ''.'') (p @ lit ''.'' @ a @ lit ''.pages.dev''))
         = [a, lit ''pages'', lit ''dev'']"
proof -
  have "split_str (lit ''.'') (p @ lit ''.'' @ a @ lit ''.pages.dev'')
          = split_str (lit ''.'') p @ [a, lit ''pages'', lit ''dev'']"
    using split_str_char_append [of "0x2E" p "a @ lit ''.pages.dev''"] split_pages_dev [OF assms]
    by (simp add: dot)
  then show ?thesis by simp
qed

section \<open>The deploy\<close>

lemma runDeploy_match:
  assumes "deploy (args (ctx s)) \<noteq> Some False"
    and "account (ctx s) = Some a" and "account_id a \<noteq> []"
    and "on_runCommand e (invoked s) (deployInvocation e (ctx s) (account_id a)) = Inr out"
    and "deployedUrlMatch out = Some m"
  shows "runDeploy e s =
           (case removeSha1 m of
              Inl err \<Rightarrow> (Inl err, setDeployedUrl m
                 (s\<lparr>invoked := invoked s @ [deployInvocation e (ctx s) (account_id a)]\<rparr>))
            | Inr url \<Rightarrow> (Inr (), setDeployedUrl url
                 (s\<lparr>invoked := invoked s @ [deployInvocation e (ctx s) (account_id a)]\<rparr>)))"
  using assms by (simp add: runDeploy_def runCommand_def)

lemma deployedUrl_setDeployedUrl: "deployedUrl (ctx (setDeployedUrl url s)) = Some url"
  by (simp add: setDeployedUrl_def)

lemma match_abc123:
  "deployedUrlMatch (lit ''https://abc123.myproj.pages.dev'') =
     Some (lit ''https://abc123.myproj.pages.dev'')"
  by (simp add: lit_def matchHere_def matchSuffix_def lineTerminator_def)

lemma match_myworker:
  "deployedUrlMatch (lit ''https://myworker.example.workers.dev'') =
     Some (lit ''https://myworker.example.workers.dev'')"
  by (simp add: lit_def matchHere_def matchSuffix_def lineTerminator_def)

lemma removeSha1_abc123:
  "removeSha1 (lit ''https://abc123.myproj.pages.dev'') = Inr (lit ''https://myproj.pages.dev'')"
  by (simp add: removeSha1_def lit_def endsWith_def suffix_to_prefix slice_last_def)

lemma removeSha1_myworker:
  "removeSha1 (lit ''https://myworker.example.workers.dev'') =
     Inr (lit ''https://myworker.example.workers.dev'')"
  by (simp add: removeSha1_def lit_def endsWith_def suffix_to_prefix)

lemma fooReady_runs:
  "deploy (args (ctx fooReady)) \<noteq> Some False"
  "account (ctx fooReady) = Some \<lparr>account_id = lit ''acct_1'', account_name = Some (lit ''acme'')\<rparr>"
  "account_id \<lparr>account_id = lit ''acct_1'', account_name = Some (lit ''acme'')\<rparr> \<noteq> []"
  "on_runCommand (deploysWith out) (invoked fooReady)
     (deployInvocation (deploysWith out) (ctx fooReady)
        (account_id \<lparr>account_id = lit ''acct_1'', account_name = Some (lit ''acme'')\<rparr>)) = Inr out"
  by (simp_all add: fooReady_def fooState_def deployInvocation_def deployScript_def nullish_def
      deploysWith_def fixture_def scripted_def lit_def)

text \<open>
  Claim C3, as the code has it. Of a deploy that is run (it was not declined and an
  account is bound): when its command exits with success and the captured output holds
  no match of the pattern, that is no \<open>https://\<close> followed by one or more code units
  other than line terminators and then \<open>.pages.dev\<close> or \<open>.workers.dev\<close>, \<open>runDeploy\<close>
  crashes with "Failed to find deployment url." (\<open>NoDeploymentUrl\<close>) and the context,
  \<open>deployedUrl\<close> with it, is as it was. When the output holds such a match, \<open>runDeploy\<close>
  ends normally with \<open>deployedUrl\<close> set. When the command exits non-zero, \<open>runDeploy\<close>
  ends with the runner's error and \<open>deployedUrl\<close> is as it was. An output without a
  match of the pattern holds no https URL whose host ends in one of the two suffixes.
\<close>

theorem runDeploy_no_url_fails:
  assumes "deploy (args (ctx s)) \<noteq> Some False"
    and "account (ctx s) = Some a" and "account_id a \<noteq> []"
  shows
   "(on_runCommand e (invoked s) (deployInvocation e (ctx s) (account_id a)) = Inr out \<and>
     \<not> containsDeploymentUrl out \<longrightarrow>
       runDeploy e s =
         (Inl NoDeploymentUrl,
          s\<lparr>invoked := invoked s @ [deployInvocation e (ctx s) (account_id a)]\<rparr>) \<and>
       deployedUrl (ctx (snd (runDeploy e s))) = deployedUrl (ctx s))
    \<and> (on_runCommand e (invoked s) (deployInvocation e (ctx s) (account_id a)) = Inr out \<and>
        containsDeploymentUrl out \<longrightarrow>
       fst (runDeploy e s) = Inr () \<and> deployedUrl (ctx (snd (runDeploy e s))) \<noteq> None)
    \<and> (on_runCommand e (invoked s) (deployInvocation e (ctx s) (account_id a)) = Inl msg \<longrightarrow>
       runDeploy e s =
         (Inl (Thrown msg),
          s\<lparr>invoked := invoked s @ [deployInvocation e (ctx s) (account_id a)]\<rparr>) \<and>
       deployedUrl (ctx (snd (runDeploy e s))) = deployedUrl (ctx s))
    \<and> (\<not> containsDeploymentUrl out \<longrightarrow> \<not> holdsDeploymentHostUrl out)"
proof (intro conjI impI)
  assume h: "on_runCommand e (invoked s) (deployInvocation e (ctx s) (account_id a)) = Inr out \<and>
     \<not> containsDeploymentUrl out"
  with assms show "runDeploy e s =
         (Inl NoDeploymentUrl,
          s\<lparr>invoked := invoked s @ [deployInvocation e (ctx s) (account_id a)]\<rparr>)"
    by (auto simp: runDeploy_def runCommand_def deployedUrlMatch_None_iff [symmetric])
  then show "deployedUrl (ctx (snd (runDeploy e s))) = deployedUrl (ctx s)" by simp
next
  assume h: "on_runCommand e (invoked s) (deployInvocation e (ctx s) (account_id a)) = Inr out \<and>
        containsDeploymentUrl out"
  then obtain m where m: "deployedUrlMatch out = Some m"
    using deployedUrlMatch_None_iff [of out] by auto
  from deployedUrlMatch_https [OF m] obtain rest where "m = lit ''https://'' @ rest" by blast
  then obtain url where r: "removeSha1 m = Inr url"
    using removeSha1_idem_https [of rest] by blast
  from h have run: "on_runCommand e (invoked s) (deployInvocation e (ctx s) (account_id a)) = Inr out"
    by simp
  show "fst (runDeploy e s) = Inr ()"
    and "deployedUrl (ctx (snd (runDeploy e s))) \<noteq> None"
    by (simp_all add: runDeploy_match [OF assms run m] r deployedUrl_setDeployedUrl)
next
  assume "on_runCommand e (invoked s) (deployInvocation e (ctx s) (account_id a)) = Inl msg"
  with assms show "runDeploy e s =
         (Inl (Thrown msg),
          s\<lparr>invoked := invoked s @ [deployInvocation e (ctx s) (account_id a)]\<rparr>)"
    by (simp add: runDeploy_def runCommand_def)
  then show "deployedUrl (ctx (snd (runDeploy e s))) = deployedUrl (ctx s)" by simp
next
  assume "\<not> containsDeploymentUrl out"
  then show "\<not> holdsDeploymentHostUrl out" using holds_imp_contains by blast
qed

theorem runDeploy_no_url_fails_witness:
  "runDeploy (deploysWith (lit ''Success! Uploaded 3 files'')) fooReady =
     (Inl (Crash (lit ''Failed to find deployment url.'')),
      fooReady\<lparr>invoked :=
        [\<lparr>command = lit ''npm run deploy'', cwd = Some (lit ''/home/dev/foo''),
          env = [(lit ''CLOUDFLARE_ACCOUNT_ID'', lit ''acct_1'')]\<rparr>]\<rparr>) \<and>
   deployedUrl (ctx (snd (runDeploy (deploysWith (lit ''Success! Uploaded 3 files'')) fooReady))) = None \<and>
   fst (runDeploy (deploysWith (lit ''https://abc123.myproj.pages.dev'')) fooReady) = Inr () \<and>
   fst (runDeploy (fixture []) fooReady) = Inl (Thrown (lit ''command not found''))"
proof -
  let ?a = "\<lparr>account_id = lit ''acct_1'', account_name = Some (lit ''acme'')\<rparr>"
  let ?e = "deploysWith (lit ''Success! Uploaded 3 files'')"
  have 1: "deploy (args (ctx fooReady)) \<noteq> Some False"
    and 2: "account (ctx fooReady) = Some ?a" and 3: "account_id ?a \<noteq> []"
    by (simp_all add: fooReady_def fooState_def lit_def)
  have inv: "deployInvocation ?e (ctx fooReady) (account_id ?a) =
          \<lparr>command = lit ''npm run deploy'', cwd = Some (lit ''/home/dev/foo''),
           env = [(lit ''CLOUDFLARE_ACCOUNT_ID'', lit ''acct_1'')]\<rparr>"
    by (simp add: deployInvocation_def deployScript_def nullish_def deploysWith_def fixture_def
        fooReady_def fooState_def lit_def)
  have 4: "on_runCommand ?e (invoked fooReady) (deployInvocation ?e (ctx fooReady) (account_id ?a))
             = Inr (lit ''Success! Uploaded 3 files'')"
    unfolding inv by (simp add: deploysWith_def fixture_def scripted_def)
  have "deployedUrlMatch (lit ''Success! Uploaded 3 files'') = None"
    by (simp add: lit_def matchHere_def)
  then have 5: "\<not> containsDeploymentUrl (lit ''Success! Uploaded 3 files'')"
    by (simp add: deployedUrlMatch_None_iff)
  have 6: "invoked fooReady = []" "deployedUrl (ctx fooReady) = None"
    by (simp_all add: fooReady_def fooState_def)
  from runDeploy_no_url_fails [OF 1 2 3, of ?e "lit ''Success! Uploaded 3 files''"] 4 5
  have a: "runDeploy ?e fooReady =
         (Inl NoDeploymentUrl,
          fooReady\<lparr>invoked := invoked fooReady @ [deployInvocation ?e (ctx fooReady) (account_id ?a)]\<rparr>)"
    and b: "deployedUrl (ctx (snd (runDeploy ?e fooReady))) = deployedUrl (ctx fooReady)"
    by blast+
  have "deployedUrlMatch (lit ''https://abc123.myproj.pages.dev'') \<noteq> None"
    by (simp add: match_abc123)
  then have 7: "containsDeploymentUrl (lit ''https://abc123.myproj.pages.dev'')"
    by (simp add: deployedUrlMatch_None_iff)
  from runDeploy_no_url_fails [OF fooReady_runs(1,2,3),
         of "deploysWith (lit ''https://abc123.myproj.pages.dev'')" "lit ''https://abc123.myproj.pages.dev''"]
       fooReady_runs(4) 7
  have c: "fst (runDeploy (deploysWith (lit ''https://abc123.myproj.pages.dev'')) fooReady) = Inr ()"
    by blast
  have 8: "on_runCommand (fixture []) (invoked fooReady)
     (deployInvocation (fixture []) (ctx fooReady) (account_id ?a))
     = Inl (lit ''command not found'')"
    by (simp add: fixture_def scripted_def)
  from runDeploy_no_url_fails [OF 1 2 3, of "fixture []" _ "lit ''command not found''"] 8
  have d: "fst (runDeploy (fixture []) fooReady) = Inl (Thrown (lit ''command not found''))"
    by simp
  from a b c d show ?thesis
    unfolding inv by (simp add: NoDeploymentUrl_def 6)
qed

text \<open>
  Claim C3 as stated fails twice. The output \<open>Docs: https://example.com/guide.pages.dev\<close>
  holds no URL whose host ends in a deployment suffix (the host is \<open>example.com\<close>), yet
  the pattern matches and \<open>runDeploy\<close> ends normally, storing
  \<open>https://com/guide.pages.dev\<close>. And a deploy command that is rejected, with no such URL
  in what it printed, ends \<open>runDeploy\<close> with the runner's error, which is not
  \<open>NoDeploymentUrl\<close>.
\<close>

theorem runDeploy_other_failures:
  "\<not> holdsDeploymentHostUrl docsUrl \<and>
   fst (runDeploy (deploysWith docsUrl) fooReady) = Inr () \<and>
   deployedUrl (ctx (snd (runDeploy (deploysWith docsUrl) fooReady)))
     = Some (lit ''https://com/guide.pages.dev'') \<and>
   on_runCommand (fixture []) (invoked fooReady)
     (deployInvocation (fixture []) (ctx fooReady) (lit ''acct_1''))
     = Inl (lit ''command not found'') \<and>
   \<not> holdsDeploymentHostUrl (lit ''command not found'') \<and>
   fst (runDeploy (fixture []) fooReady) = Inl (Thrown (lit ''command not found'')) \<and>
   Thrown (lit ''command not found'') \<noteq> NoDeploymentUrl"
proof -
  have 1: "\<not> holdsDeploymentHostUrl docsUrl"
    by (simp add: docsUrl_def lit_def deploymentHost_def urlHost_def hostEnd_def trimmable_def
        lineTerminator_def endsWith_def suffix_to_prefix)
  have m: "deployedUrlMatch docsUrl = Some (lit ''https://example.com/guide.pages.dev'')"
    by (simp add: docsUrl_def lit_def matchHere_def matchSuffix_def lineTerminator_def)
  have r: "removeSha1 (lit ''https://example.com/guide.pages.dev'')
            = Inr (lit ''https://com/guide.pages.dev'')"
    by (simp add: removeSha1_def lit_def endsWith_def suffix_to_prefix slice_last_def)
  have 2: "fst (runDeploy (deploysWith docsUrl) fooReady) = Inr ()"
    and 3: "deployedUrl (ctx (snd (runDeploy (deploysWith docsUrl) fooReady)))
     = Some (lit ''https://com/guide.pages.dev'')"
    by (simp_all add: runDeploy_match [OF fooReady_runs m] r deployedUrl_setDeployedUrl)
  have 4: "on_runCommand (fixture []) (invoked fooReady)
     (deployInvocation (fixture []) (ctx fooReady) (lit ''acct_1''))
     = Inl (lit ''command not found'')"
    by (simp add: fixture_def scripted_def)
  have 5: "\<not> holdsDeploymentHostUrl (lit ''command not found'')"
    by (simp add: lit_def)
  have 6: "fst (runDeploy (fixture []) fooReady) = Inl (Thrown (lit ''command not found''))"
    using 4 by (simp add: runDeploy_def runCommand_def fooReady_def fooState_def lit_def)
  have 7: "Thrown (lit ''command not found'') \<noteq> NoDeploymentUrl"
    by (simp add: NoDeploymentUrl_def)
  from 1 2 3 4 5 6 7 show ?thesis by blast
qed

lemma match_rest_pages:
  assumes "deployedUrlMatch out = Some (lit ''https://'' @ rest)"
    and "endsWith (lit ''https://'' @ rest) (lit ''.pages.dev'')"
  shows "\<exists>x. rest = x @ lit ''.pages.dev''"
proof -
  from deployedUrlMatch_Some [OF assms(1)] obtain before t where
    "matchHere t = Some (lit ''https://'' @ rest)" by blast
  from matchHere_Some [OF this] obtain host sfx where
    r: "rest = host @ sfx" and sfx: "sfx = lit ''.pages.dev'' \<or> sfx = lit ''.workers.dev''"
    by auto
  show ?thesis
  proof (cases "sfx = lit ''.pages.dev''")
    case True
    with r show ?thesis by blast
  next
    case False
    with sfx r have "rest = host @ lit ''.workers.dev''" by simp
    with assms(2) have False
      by (simp add: endsWith_def suffix_to_prefix lit_def)
    then show ?thesis ..
  qed
qed

lemma last_label:
  "\<exists>l. c \<notin> set l \<and> (x = l \<or> (\<exists>p. x = p @ [c] @ l))"
proof (cases "c \<in> set x")
  case True
  from split_list_last [OF this] show ?thesis by auto
next
  case False
  then show ?thesis by blast
qed

lemma rest_forms:
  assumes "deployedUrlMatch out = Some (lit ''https://'' @ rest)"
    and "endsWith (lit ''https://'' @ rest) (lit ''.pages.dev'')"
  shows "\<exists>l. 0x2E \<notin> set l \<and>
           (rest = l @ lit ''.pages.dev'' \<or> (\<exists>p. rest = p @ lit ''.'' @ l @ lit ''.pages.dev''))"
proof -
  from match_rest_pages [OF assms] obtain x where x: "rest = x @ lit ''.pages.dev''" by blast
  from last_label [of "0x2E" x] obtain l where
    "0x2E \<notin> set l" "x = l \<or> (\<exists>p. x = p @ [0x2E] @ l)" by blast
  with x show ?thesis by (auto simp: dot)
qed

text \<open>
  Claim C2, as the code has it. Of a deploy that is run and whose command exits with
  success: when the match of the pattern is \<open>https://\<close> and a rest that holds no other
  \<open>://\<close>, and the match ends in \<open>.pages.dev\<close>, then \<open>deployedUrl\<close> is \<open>https://\<close> and the
  last three dot-separated labels of that rest, all of them when there are three. Said
  without the splitting: a rest \<open>p.l.pages.dev\<close> with no dot in \<open>l\<close> gives
  \<open>https://l.pages.dev\<close>, a rest \<open>l.pages.dev\<close> with no dot in \<open>l\<close> is kept, and every rest
  is of one of these two forms. The rest is the host when the match is a bare URL. A match
  that does not end in \<open>.pages.dev\<close> is stored as it is. The output
  \<open>https://abc123.myproj.pages.dev\<close> gives \<open>https://myproj.pages.dev\<close>, and
  \<open>https://myworker.example.workers.dev\<close> gives itself. (The code unit \<open>0x2E\<close> is the
  dot.)
\<close>

theorem runDeploy_canonical_url:
  assumes "deploy (args (ctx s)) \<noteq> Some False"
    and "account (ctx s) = Some a" and "account_id a \<noteq> []"
    and "on_runCommand e (invoked s) (deployInvocation e (ctx s) (account_id a)) = Inr out"
  shows
   "(\<forall>rest. deployedUrlMatch out = Some (lit ''https://'' @ rest) \<and>
        \<not> includes_str rest (lit ''://'') \<and>
        endsWith (lit ''https://'' @ rest) (lit ''.pages.dev'') \<longrightarrow>
        fst (runDeploy e s) = Inr () \<and>
        (\<exists>kept. deployedUrl (ctx (snd (runDeploy e s))) = Some (lit ''https://'' @ kept) \<and>
           split_str (lit ''.'') kept =
             drop (length (split_str (lit ''.'') rest) - 3) (split_str (lit ''.'') rest)) \<and>
        (\<forall>p l. 0x2E \<notin> set l \<and> rest = p @ lit ''.'' @ l @ lit ''.pages.dev'' \<longrightarrow>
           deployedUrl (ctx (snd (runDeploy e s))) = Some (lit ''https://'' @ l @ lit ''.pages.dev'')) \<and>
        (\<forall>l. 0x2E \<notin> set l \<and> rest = l @ lit ''.pages.dev'' \<longrightarrow>
           deployedUrl (ctx (snd (runDeploy e s))) = Some (lit ''https://'' @ rest)) \<and>
        (\<exists>l. 0x2E \<notin> set l \<and>
           (rest = l @ lit ''.pages.dev'' \<or>
            (\<exists>p. rest = p @ lit ''.'' @ l @ lit ''.pages.dev''))))
    \<and> (\<forall>m. deployedUrlMatch out = Some m \<and> \<not> endsWith m (lit ''.pages.dev'') \<longrightarrow>
          fst (runDeploy e s) = Inr () \<and> deployedUrl (ctx (snd (runDeploy e s))) = Some m)
    \<and> (out = lit ''https://abc123.myproj.pages.dev'' \<longrightarrow>
          fst (runDeploy e s) = Inr () \<and>
          deployedUrl (ctx (snd (runDeploy e s))) = Some (lit ''https://myproj.pages.dev''))
    \<and> (out = lit ''https://myworker.example.workers.dev'' \<longrightarrow>
          fst (runDeploy e s) = Inr () \<and>
          deployedUrl (ctx (snd (runDeploy e s))) = Some (lit ''https://myworker.example.workers.dev''))"
proof (intro conjI allI impI)
  fix rest
  assume h: "deployedUrlMatch out = Some (lit ''https://'' @ rest) \<and>
        \<not> includes_str rest (lit ''://'') \<and>
        endsWith (lit ''https://'' @ rest) (lit ''.pages.dev'')"
  then have m: "deployedUrlMatch out = Some (lit ''https://'' @ rest)" by simp
  define ls where "ls = split_str (lit ''.'') rest"
  define kept where "kept = join_str (lit ''.'') (drop (length ls - 3) ls)"
  have r: "removeSha1 (lit ''https://'' @ rest) = Inr (lit ''https://'' @ kept)"
    using h by (simp add: removeSha1_bare kept_def ls_def)
  show ok: "fst (runDeploy e s) = Inr ()"
    by (simp add: runDeploy_match [OF assms m] r)
  have stored: "deployedUrl (ctx (snd (runDeploy e s))) = Some (lit ''https://'' @ kept)"
    by (simp add: runDeploy_match [OF assms m] r deployedUrl_setDeployedUrl)
  have "split_str (lit ''.'') kept = drop (length ls - 3) ls"
    unfolding kept_def ls_def dot by (rule labels_of_kept)
  with stored show "\<exists>kept. deployedUrl (ctx (snd (runDeploy e s))) = Some (lit ''https://'' @ kept) \<and>
           split_str (lit ''.'') kept =
             drop (length (split_str (lit ''.'') rest) - 3) (split_str (lit ''.'') rest)"
    unfolding ls_def by blast
  {
    fix p l
    assume "0x2E \<notin> set l \<and> rest = p @ lit ''.'' @ l @ lit ''.pages.dev''"
    then have "drop (length ls - 3) ls = [l, lit ''pages'', lit ''dev'']"
      unfolding ls_def using drop_labels_long by simp
    then have "kept = l @ lit ''.pages.dev''"
      by (simp only: kept_def join_pages_dev)
    with stored show "deployedUrl (ctx (snd (runDeploy e s))) = Some (lit ''https://'' @ l @ lit ''.pages.dev'')"
      by simp
  }
  {
    fix l
    assume "0x2E \<notin> set l \<and> rest = l @ lit ''.pages.dev''"
    then have "ls = [l, lit ''pages'', lit ''dev'']" and rest: "rest = l @ lit ''.pages.dev''"
      unfolding ls_def using split_pages_dev by simp_all
    then have "kept = rest"
      by (simp only: kept_def join_pages_dev list.size drop_0 diff_self_eq_0 One_nat_def
          numeral_3_eq_3 add_Suc add_0 diff_Suc_Suc)
    with stored show "deployedUrl (ctx (snd (runDeploy e s))) = Some (lit ''https://'' @ rest)"
      by simp
  }
  from h show "\<exists>l. 0x2E \<notin> set l \<and>
           (rest = l @ lit ''.pages.dev'' \<or>
            (\<exists>p. rest = p @ lit ''.'' @ l @ lit ''.pages.dev''))"
    using rest_forms [of out rest] by simp
next
  fix m
  assume "deployedUrlMatch out = Some m \<and> \<not> endsWith m (lit ''.pages.dev'')"
  then have m: "deployedUrlMatch out = Some m" and r: "removeSha1 m = Inr m"
    by (simp_all add: removeSha1_def)
  show "fst (runDeploy e s) = Inr ()"
    and "deployedUrl (ctx (snd (runDeploy e s))) = Some m"
    by (simp_all add: runDeploy_match [OF assms m] r deployedUrl_setDeployedUrl)
next
  assume out: "out = lit ''https://abc123.myproj.pages.dev''"
  have m: "deployedUrlMatch out = Some (lit ''https://abc123.myproj.pages.dev'')"
    unfolding out by (rule match_abc123)
  show "fst (runDeploy e s) = Inr ()"
    and "deployedUrl (ctx (snd (runDeploy e s))) = Some (lit ''https://myproj.pages.dev'')"
    by (simp_all add: runDeploy_match [OF assms m] removeSha1_abc123 deployedUrl_setDeployedUrl)
next
  assume out: "out = lit ''https://myworker.example.workers.dev''"
  have m: "deployedUrlMatch out = Some (lit ''https://myworker.example.workers.dev'')"
    unfolding out by (rule match_myworker)
  show "fst (runDeploy e s) = Inr ()"
    and "deployedUrl (ctx (snd (runDeploy e s))) = Some (lit ''https://myworker.example.workers.dev'')"
    by (simp_all add: runDeploy_match [OF assms m] removeSha1_myworker deployedUrl_setDeployedUrl)
qed


theorem runDeploy_canonical_url_witness:
  "deployedUrl (ctx (snd (runDeploy (deploysWith (lit ''https://abc123.myproj.pages.dev'')) fooReady)))
     = Some (lit ''https://myproj.pages.dev'') \<and>
   deployedUrl (ctx (snd (runDeploy (deploysWith (lit ''https://myworker.example.workers.dev'')) fooReady)))
     = Some (lit ''https://myworker.example.workers.dev'') \<and>
   deployedUrl (ctx (snd (runDeploy (deploysWith (lit ''https://foo.pages.dev'')) fooReady)))
     = Some (lit ''https://foo.pages.dev'')"
proof -
  note a = runDeploy_canonical_url [OF fooReady_runs, of "lit ''https://abc123.myproj.pages.dev''"]
  note b = runDeploy_canonical_url [OF fooReady_runs, of "lit ''https://myworker.example.workers.dev''"]
  note c = runDeploy_canonical_url [OF fooReady_runs, of "lit ''https://foo.pages.dev''"]
  have m: "deployedUrlMatch (lit ''https://abc123.myproj.pages.dev'')
             = Some (lit ''https://'' @ lit ''abc123.myproj.pages.dev'')"
    using match_abc123 by (simp add: lit_def)
  have f: "\<not> includes_str (lit ''abc123.myproj.pages.dev'') (lit ''://'')"
    by (simp add: includes_str_def lit_def sublist_code)
  have p: "endsWith (lit ''https://'' @ lit ''abc123.myproj.pages.dev'') (lit ''.pages.dev'')"
    by (simp add: endsWith_def suffix_to_prefix lit_def)
  have l: "(0x2E :: unit16) \<notin> set (lit ''myproj'') \<and>
           lit ''abc123.myproj.pages.dev'' = lit ''abc123'' @ lit ''.'' @ lit ''myproj'' @ lit ''.pages.dev''"
    by (simp add: lit_def)
  from a m f p l
  have 1: "deployedUrl (ctx (snd (runDeploy (deploysWith (lit ''https://abc123.myproj.pages.dev'')) fooReady)))
     = Some (lit ''https://'' @ lit ''myproj'' @ lit ''.pages.dev'')"
    by blast
  have 2: "deployedUrl (ctx (snd (runDeploy (deploysWith (lit ''https://myworker.example.workers.dev'')) fooReady)))
     = Some (lit ''https://myworker.example.workers.dev'')"
    using b by blast
  have m3: "deployedUrlMatch (lit ''https://foo.pages.dev'') = Some (lit ''https://'' @ lit ''foo.pages.dev'')"
    by (simp add: lit_def matchHere_def matchSuffix_def lineTerminator_def)
  have f3: "\<not> includes_str (lit ''foo.pages.dev'') (lit ''://'')"
    by (simp add: includes_str_def lit_def sublist_code)
  have p3: "endsWith (lit ''https://'' @ lit ''foo.pages.dev'') (lit ''.pages.dev'')"
    by (simp add: endsWith_def suffix_to_prefix lit_def)
  have l3: "(0x2E :: unit16) \<notin> set (lit ''foo'') \<and> lit ''foo.pages.dev'' = lit ''foo'' @ lit ''.pages.dev''"
    by (simp add: lit_def)
  from c m3 f3 p3 l3
  have 3: "deployedUrl (ctx (snd (runDeploy (deploysWith (lit ''https://foo.pages.dev'')) fooReady)))
     = Some (lit ''https://'' @ lit ''foo.pages.dev'')"
    by blast
  from 1 2 3 show ?thesis by (simp add: lit_def)
qed

text \<open>
  Claim C2 as stated fails: on a line with two URLs the greedy pattern matches from the
  first \<open>https://\<close> to the last \<open>.pages.dev\<close>. The host of that match is
  \<open>abc.myproj.pages.dev\<close>, which ends in \<open>.pages.dev\<close>, and the URL stored is not
  \<open>https://\<close> and its last three labels: the code splits at every \<open>://\<close> and keeps what
  stands between the first two.
\<close>

theorem runDeploy_two_urls_on_a_line:
  "deployedUrlMatch twoUrls =
     Some (lit ''https://abc.myproj.pages.dev (alias: https://branch.myproj.pages.dev'') \<and>
   urlHost (lit ''abc.myproj.pages.dev (alias: https://branch.myproj.pages.dev'')
     = lit ''abc.myproj.pages.dev'' \<and>
   fst (runDeploy (deploysWith twoUrls) fooReady) = Inr () \<and>
   deployedUrl (ctx (snd (runDeploy (deploysWith twoUrls) fooReady)))
     = Some (lit ''https://myproj.pages.dev (alias: https'')"
proof -
  have m: "deployedUrlMatch twoUrls =
     Some (lit ''https://abc.myproj.pages.dev (alias: https://branch.myproj.pages.dev'')"
    by (simp add: twoUrls_def lit_def matchHere_def matchSuffix_def lineTerminator_def)
  have r: "removeSha1 (lit ''https://abc.myproj.pages.dev (alias: https://branch.myproj.pages.dev'')
            = Inr (lit ''https://myproj.pages.dev (alias: https'')"
    by (simp add: removeSha1_def lit_def endsWith_def suffix_to_prefix slice_last_def)
  have h: "urlHost (lit ''abc.myproj.pages.dev (alias: https://branch.myproj.pages.dev'')
     = lit ''abc.myproj.pages.dev''"
    by (simp add: urlHost_def hostEnd_def trimmable_def lineTerminator_def lit_def)
  show ?thesis
    by (simp add: runDeploy_match [OF fooReady_runs m] r m h deployedUrl_setDeployedUrl)
qed

text \<open>
  Claim C10. The rewrite of lines 104 to 109 is idempotent on every string that starts
  with \<open>https://\<close>: it succeeds, and applied to its result it gives that result again.
  A URL whose host has three labels or fewer is returned as it is. So the \<open>deployedUrl\<close>
  that a successful deploy stores is a fixed point of the rewrite.
\<close>

theorem removeSha1_idempotent:
  "(\<exists>r. removeSha1 (lit ''https://'' @ rest) = Inr r \<and> removeSha1 r = Inr r)
   \<and> (\<not> includes_str host (lit ''://'') \<and> length (split_str (lit ''.'') host) \<le> 3 \<longrightarrow>
        removeSha1 (lit ''https://'' @ host) = Inr (lit ''https://'' @ host))
   \<and> (deploy (args (ctx s)) \<noteq> Some False \<and> fst (runDeploy e s) = Inr () \<longrightarrow>
        (\<exists>url. deployedUrl (ctx (snd (runDeploy e s))) = Some url \<and> removeSha1 url = Inr url))"
proof (intro conjI impI)
  show "\<exists>r. removeSha1 (lit ''https://'' @ rest) = Inr r \<and> removeSha1 r = Inr r"
    by (rule removeSha1_idem_https)
next
  assume "\<not> includes_str host (lit ''://'') \<and> length (split_str (lit ''.'') host) \<le> 3"
  then have free: "\<not> sublist (lit ''://'') host" and short: "length (split_str (lit ''.'') host) \<le> 3"
    by (simp_all add: includes_str_def)
  have "hd (split_str (lit ''://'') host) = host"
    using free by (simp add: hd_split_str_no_occurrence lit_def)
  moreover have "join_str (lit ''.'') (slice_last 3 (split_str (lit ''.'') host)) = host"
    using short by (simp add: slice_last_short join_split_str lit_def)
  ultimately show "removeSha1 (lit ''https://'' @ host) = Inr (lit ''https://'' @ host)"
    by (simp add: removeSha1_https)
next
  assume a: "deploy (args (ctx s)) \<noteq> Some False \<and> fst (runDeploy e s) = Inr ()"
  then obtain acc out m url where
    "account (ctx s) = Some acc" "account_id acc \<noteq> []"
    "on_runCommand e (invoked s) (deployInvocation e (ctx s) (account_id acc)) = Inr out"
    "deployedUrlMatch out = Some m" "removeSha1 m = Inr url"
    "deployedUrl (ctx (snd (runDeploy e s))) = Some url"
    by (auto simp: runDeploy_def runCommand_def deployedUrl_setDeployedUrl
        split: option.splits if_splits sum.splits)
  moreover from deployedUrlMatch_https [OF this(4)] obtain rest' where "m = lit ''https://'' @ rest'"
    by blast
  moreover from removeSha1_idem_https [of rest'] obtain r where
    "removeSha1 (lit ''https://'' @ rest') = Inr r" "removeSha1 r = Inr r"
    by blast
  ultimately show "\<exists>url. deployedUrl (ctx (snd (runDeploy e s))) = Some url \<and> removeSha1 url = Inr url"
    by auto
qed

theorem removeSha1_idempotent_witness:
  "removeSha1 (lit ''https://myproj.pages.dev'') = Inr (lit ''https://myproj.pages.dev'') \<and>
   (\<exists>url. deployedUrl (ctx (snd (runDeploy (deploysWith (lit ''https://abc123.myproj.pages.dev'')) fooReady))) = Some url
          \<and> removeSha1 url = Inr url)"
proof -
  have 1: "\<not> includes_str (lit ''myproj.pages.dev'') (lit ''://'') \<and>
           length (split_str (lit ''.'') (lit ''myproj.pages.dev'')) \<le> 3"
    by (simp add: includes_str_def lit_def sublist_code)
  have 2: "deploy (args (ctx fooReady)) \<noteq> Some False \<and>
           fst (runDeploy (deploysWith (lit ''https://abc123.myproj.pages.dev'')) fooReady) = Inr ()"
    by (simp add: runDeploy_match [OF fooReady_runs match_abc123] removeSha1_abc123 fooReady_runs)
  from removeSha1_idempotent [of _ "lit ''myproj.pages.dev''" fooReady
         "deploysWith (lit ''https://abc123.myproj.pages.dev'')"] 1 2
  have "removeSha1 (lit ''https://'' @ lit ''myproj.pages.dev'') = Inr (lit ''https://'' @ lit ''myproj.pages.dev'')"
    and "\<exists>url. deployedUrl (ctx (snd (runDeploy (deploysWith (lit ''https://abc123.myproj.pages.dev'')) fooReady))) = Some url
          \<and> removeSha1 url = Inr url"
    by blast+
  then show ?thesis by (simp add: lit_def)
qed


end
